theory Spec2Isabelle
  imports Main
begin

section \<open>The monitor registry of \<^verbatim>\<open>oxenss/server/omq_monitor.cpp\<close>\<close>

text \<open>
  The theory embeds the subscription ("monitor") code of the storage server:
  \<^verbatim>\<open>merge_namespaces\<close>, \<^verbatim>\<open>OMQ::update_monitors\<close>, \<^verbatim>\<open>OMQ::handle_monitor_messages\<close>,
  \<^verbatim>\<open>write_metadata\<close> and \<^verbatim>\<open>OMQ::send_notifies\<close>.  Vectors are lists, iterators are the
  remaining suffix of the list they walk, \<^verbatim>\<open>std::optional\<close> is \<open>option\<close>, and every
  member function takes the registry it works on and returns the new one.
\<close>

subsection \<open>Basic types\<close>

text \<open>
  \<^verbatim>\<open>namespace_id\<close> is an enum over a signed 16-bit integer, declared in
  \<^verbatim>\<open>common/namespace.h\<close>.  The code here only compares namespaces (\<open><\<close>, \<open>>\<close>, \<open>==\<close>) and
  prints them; it never computes with them, so the integer value stands for the enum.
  The merge itself is written for any linear order.
\<close>

type_synonym namespace_id = int

subsection \<open>\<^verbatim>\<open>merge_namespaces\<close> (lines 27 to 66)\<close>

text \<open>
  The first loop (lines 34 to 43) walks \<open>ita\<close> through \<open>a\<close> and \<open>itb\<close> through \<open>b\<close>.
  The function below is that loop followed by the test \<^verbatim>\<open>itb == b.end()\<close> of line 44:
  the two arguments are what is left of \<open>a\<close> and of \<open>b\<close>.  The loop stops when
  either list is used up, or at the \<^verbatim>\<open>break\<close>, where \<open>itb\<close> is not at the end.
\<close>

fun superset_scan :: "'a::linorder list \<Rightarrow> 'a list \<Rightarrow> bool" where
  "superset_scan (x # xs) (y # ys) =
     (if y > x then superset_scan xs (y # ys)
      else if y = x then superset_scan xs ys
      else False)"
| "superset_scan xs [] = True"
| "superset_scan [] (y # ys) = False"

text \<open>
  The second loop (lines 52 to 64) with its output vector \<open>c\<close>; \<^verbatim>\<open>push_back\<close> appends
  at the end.
\<close>

fun merge_loop :: "'a::linorder list \<Rightarrow> 'a list \<Rightarrow> 'a list \<Rightarrow> 'a list" where
  "merge_loop [] [] c = c"
| "merge_loop (x # xs) [] c = merge_loop xs [] (c @ [x])"
| "merge_loop [] (y # ys) c = merge_loop [] ys (c @ [y])"
| "merge_loop (x # xs) (y # ys) c =
     (if x < y then merge_loop xs (y # ys) (c @ [x])
      else if x = y then merge_loop xs ys (c @ [x])
      else merge_loop (x # xs) ys (c @ [y]))"

text \<open>
  The whole function: the swap of line 31 (\<open>hd\<close> is \<^verbatim>\<open>front()\<close>, read only on a
  non-empty vector, as in the source), the superset test, and the merge.
\<close>

definition merge_namespaces :: "'a::linorder list \<Rightarrow> 'a list \<Rightarrow> 'a list" where
  "merge_namespaces a b =
     (let (a', b') = (if b \<noteq> [] \<and> (a = [] \<or> hd b < hd a) then (b, a) else (a, b))
      in if superset_scan a' b' then a' else merge_loop a' b' [])"

subsection \<open>The registry and its entries\<close>

text \<open>
  \<^verbatim>\<open>oxenmq::ConnectionID\<close> and \<^verbatim>\<open>std::shared_ptr<quic::Connection>\<close> are only stored and
  compared with \<open>==\<close> here, so a number stands for each identity.  A point of the
  steady clock is an integer count of ticks.
\<close>

type_synonym connection_id = nat
type_synonym quic_connection = nat
type_synonym time_point = int

text \<open>
  \<^verbatim>\<open>oxenmq::Message\<close>, as far as \<^verbatim>\<open>handle_monitor_messages\<close> reads it: the data parts and
  the connection the request came from.
\<close>

record oxenmq_Message =
  data :: "string list"
  conn :: connection_id

text \<open>
  The stored message handed to \<^verbatim>\<open>send_notifies\<close>.  \<open>pubkey\<close> holds the account key
  bytes, \<open>timestamp\<close> and \<open>expiry\<close> are points of the system clock.
\<close>

record message =
  pubkey :: string
  hash :: string
  msg_namespace :: namespace_id
  timestamp :: int
  expiry :: int
  data :: string

text \<open>
  \<^verbatim>\<open>monitor_data\<close>, the value type of the multimap \<^verbatim>\<open>monitoring_\<close>.  Both transport handles
  are optional, as the tests \<^verbatim>\<open>not mon_data.push_conn\<close> and \<^verbatim>\<open>not mon_data.quic\<close> and the
  dereference \<^verbatim>\<open>*mon_data.push_conn\<close> show.
\<close>

record monitor_data =
  expiry :: time_point
  namespaces :: "namespace_id list"
  push_conn :: "connection_id option"
  quic :: "quic_connection option"
  want_data :: bool

text \<open>
  \<^verbatim>\<open>sub_info\<close> is taken apart by the structured binding of line 75 into
  \<open>(pubkey, pubkey_hex, namespaces, want_data)\<close>.
\<close>

type_synonym sub_info = "string \<times> string \<times> namespace_id list \<times> bool"

text \<open>
  The multimap \<^verbatim>\<open>monitoring_\<close> is the list of its (key, entry) pairs.  The order of the
  list is the order in which \<^verbatim>\<open>equal_range\<close> visits the entries of one key, and
  \<^verbatim>\<open>emplace\<close> puts the new pair last.
\<close>

type_synonym monitoring = "(string \<times> monitor_data) list"

text \<open>
  Modelled from the spec: \<^verbatim>\<open>monitor_data::reset_expiry\<close> is defined in \<^verbatim>\<open>omq.h\<close>, which is
  not among the source files.  The data model says that the expiry "is always the time of
  the most recent renewal plus a fixed TTL"; \<open>ttl\<close> is that constant and \<open>now\<close> the
  reading of the steady clock.
\<close>

definition reset_expiry :: "int \<Rightarrow> time_point \<Rightarrow> monitor_data \<Rightarrow> monitor_data" where
  "reset_expiry ttl now m = m\<lparr>expiry := now + ttl\<rparr>"

text \<open>
  Modelled from the spec: the constructor of \<^verbatim>\<open>monitor_data\<close>, also in \<^verbatim>\<open>omq.h\<close>, called by
  \<^verbatim>\<open>emplace\<close> with \<open>(namespaces, want_data, omq, quic)\<close>.  It stores its arguments ("insert a
  new entry with the requested namespaces, want_data, and whichever transport handle(s)
  were supplied") and starts the expiry like a renewal.
\<close>

definition new_monitor_data ::
  "int \<Rightarrow> time_point \<Rightarrow> namespace_id list \<Rightarrow> bool \<Rightarrow> connection_id option
     \<Rightarrow> quic_connection option \<Rightarrow> monitor_data" where
  "new_monitor_data ttl now ns wd omq qc =
     \<lparr>expiry = now + ttl, namespaces = ns, push_conn = omq, quic = qc, want_data = wd\<rparr>"

subsection \<open>\<^verbatim>\<open>OMQ::update_monitors\<close> (lines 70 to 109)\<close>

text \<open>The test of line 79: the entry belongs to one of the handles of this call.\<close>

definition same_transport ::
  "connection_id option \<Rightarrow> quic_connection option \<Rightarrow> monitor_data \<Rightarrow> bool" where
  "same_transport omq qc m \<longleftrightarrow>
     (omq \<noteq> None \<and> push_conn m = omq) \<or> (qc \<noteq> None \<and> quic m = qc)"

text \<open>Lines 80 to 93: what a renewal does to the entry it found.\<close>

definition renew ::
  "int \<Rightarrow> time_point \<Rightarrow> connection_id option \<Rightarrow> quic_connection option
     \<Rightarrow> namespace_id list \<Rightarrow> bool \<Rightarrow> monitor_data \<Rightarrow> monitor_data" where
  "renew ttl now omq qc ns wd m =
     (let m1 = m\<lparr>namespaces := merge_namespaces (namespaces m) ns\<rparr>;
          m2 = reset_expiry ttl now m1;
          m3 = m2\<lparr>want_data := want_data m2 \<or> wd\<rparr>;
          m4 = (if omq \<noteq> None \<and> push_conn m3 = None then m3\<lparr>push_conn := omq\<rparr> else m3);
          m5 = (if qc \<noteq> None \<and> quic m4 = None then m4\<lparr>quic := qc\<rparr> else m4)
      in m5)"

text \<open>
  The inner loop (lines 77 to 96) over the entries of \<open>pk\<close>: the first entry that
  passes the test is renewed and the loop breaks.  The result is \<open>None\<close> when the
  loop ends with \<open>found\<close> still false.
\<close>

fun renew_existing ::
  "int \<Rightarrow> time_point \<Rightarrow> connection_id option \<Rightarrow> quic_connection option
     \<Rightarrow> string \<Rightarrow> namespace_id list \<Rightarrow> bool \<Rightarrow> monitoring \<Rightarrow> monitoring option" where
  "renew_existing ttl now omq qc pk ns wd [] = None"
| "renew_existing ttl now omq qc pk ns wd ((k, m) # rest) =
     (if k = pk \<and> same_transport omq qc m
      then Some ((k, renew ttl now omq qc ns wd m) # rest)
      else map_option ((#) (k, m)) (renew_existing ttl now omq qc pk ns wd rest))"

text \<open>One round of the outer loop (lines 75 to 108), for one request of the batch.\<close>

definition update_monitor ::
  "int \<Rightarrow> time_point \<Rightarrow> connection_id option \<Rightarrow> quic_connection option
     \<Rightarrow> sub_info \<Rightarrow> monitoring \<Rightarrow> monitoring" where
  "update_monitor ttl now omq qc sub reg =
     (case sub of (pk, pubkey_hex, ns, wd) \<Rightarrow>
        (case renew_existing ttl now omq qc pk ns wd reg of
           Some reg' \<Rightarrow> reg'
         | None \<Rightarrow> reg @ [(pk, new_monitor_data ttl now ns wd omq qc)]))"

text \<open>
  The outer loop.  The steady clock is read once in every round; \<open>clock i\<close> is its
  reading in the round of the request at position \<open>i\<close> of the batch.
\<close>

fun update_monitors_from ::
  "int \<Rightarrow> (nat \<Rightarrow> time_point) \<Rightarrow> nat \<Rightarrow> sub_info list \<Rightarrow> connection_id option
     \<Rightarrow> quic_connection option \<Rightarrow> monitoring \<Rightarrow> monitoring" where
  "update_monitors_from ttl clock i [] omq qc reg = reg"
| "update_monitors_from ttl clock i (sub # subs) omq qc reg =
     update_monitors_from ttl clock (Suc i) subs omq qc
       (update_monitor ttl (clock i) omq qc sub reg)"

definition update_monitors ::
  "int \<Rightarrow> (nat \<Rightarrow> time_point) \<Rightarrow> sub_info list \<Rightarrow> connection_id option
     \<Rightarrow> quic_connection option \<Rightarrow> monitoring \<Rightarrow> monitoring" where
  "update_monitors ttl clock subs omq qc reg = update_monitors_from ttl clock 0 subs omq qc reg"

subsection \<open>The bencode writers of oxenc\<close>

text \<open>
  \<^verbatim>\<open>oxenc\<close> is a library outside this repository.  Its writers are modelled by the
  format they produce: an integer is \<^verbatim>\<open>i<decimal>e\<close>, a byte string is
  \<^verbatim>\<open><length>:<bytes>\<close>, and a dict is \<^verbatim>\<open>d\<close>, the keys and values in turn, and \<^verbatim>\<open>e\<close>.
\<close>

definition digit_char :: "nat \<Rightarrow> char" where
  "digit_char d = ''0123456789'' ! d"

function decimal :: "nat \<Rightarrow> string" where
  "decimal n = (if n < 10 then [digit_char n] else decimal (n div 10) @ [digit_char (n mod 10)])"
  by pat_completeness auto
termination
  by (relation "measure id") auto

declare decimal.simps [simp del]

definition bt_integer :: "int \<Rightarrow> string" where
  "bt_integer i = ''i'' @ (if i < 0 then CHR ''-'' # decimal (nat (- i)) else decimal (nat i)) @ ''e''"

definition bt_string :: "string \<Rightarrow> string" where
  "bt_string s = decimal (length s) @ '':'' @ s"

datatype bt_value = bt_int int | bt_str string

text \<open>
  \<^verbatim>\<open>bt_serialize\<close> of a \<^verbatim>\<open>bt_dict\<close>.  A \<^verbatim>\<open>bt_dict\<close> is a map sorted by key; the argument is
  the list of its pairs in key order.
\<close>

definition bt_serialize :: "(string \<times> bt_value) list \<Rightarrow> string" where
  "bt_serialize dict =
     ''d'' @ concat (map (\<lambda>(k, v). bt_string k @ (case v of bt_int i \<Rightarrow> bt_integer i
                                                       | bt_str s \<Rightarrow> bt_string s)) dict) @ ''e''"

text \<open>
  A \<^verbatim>\<open>bt_dict_producer\<close> is its buffer.  The buffer always ends with the closing \<^verbatim>\<open>e\<close>,
  so that what \<^verbatim>\<open>view()\<close> and \<^verbatim>\<open>str()\<close> give (the whole buffer) is a complete dict that
  the receiver can parse; \<^verbatim>\<open>append\<close> writes over that \<^verbatim>\<open>e\<close> and closes the dict again.
  \<^verbatim>\<open>reserve\<close> changes the capacity only and is left out.
\<close>

type_synonym bt_dict_producer = string

definition bt_dict_producer_new :: bt_dict_producer where
  "bt_dict_producer_new = ''de''"

definition append_string :: "bt_dict_producer \<Rightarrow> string \<Rightarrow> string \<Rightarrow> bt_dict_producer" where
  "append_string d k v = butlast d @ bt_string k @ bt_string v @ ''e''"

definition append_integer :: "bt_dict_producer \<Rightarrow> string \<Rightarrow> int \<Rightarrow> bt_dict_producer" where
  "append_integer d k i = butlast d @ bt_string k @ bt_integer i @ ''e''"

definition view :: "bt_dict_producer \<Rightarrow> string" where
  "view d = d"

subsection \<open>\<^verbatim>\<open>OMQ::handle_monitor_messages\<close> (lines 111 to 149)\<close>

text \<open>
  The consumers of oxenc and \<^verbatim>\<open>handle_monitor_message_single\<close> are not among the source
  files.  They are parameters of the model: each either throws (\<open>Inl\<close>) or returns.
  \<open>'d\<close> is a \<^verbatim>\<open>bt_dict_consumer\<close> and \<open>'l\<close> a \<^verbatim>\<open>bt_list_consumer\<close>;
  \<open>handle_monitor_message_single\<close> takes its consumer, the dict producer \<open>out\<close> and the
  vector \<open>subs\<close>, and returns the last two as it leaves them.
\<close>

datatype exn = Exception

record ('d, 'l) bt_consumers =
  dict_consumer :: "string \<Rightarrow> exn + 'd"
  list_consumer :: "string \<Rightarrow> exn + 'l"
  is_finished :: "'l \<Rightarrow> bool"
  consume_dict_consumer :: "'l \<Rightarrow> exn + 'd \<times> 'l"
  handle_monitor_message_single ::
    "'d \<Rightarrow> bt_dict_producer \<Rightarrow> sub_info list \<Rightarrow> exn + bt_dict_producer \<times> sub_info list"

text \<open>
  The loop of lines 134 and 135.  \<open>out\<close> is the buffer of the list producer, which
  ends with its closing \<^verbatim>\<open>e\<close>; \<^verbatim>\<open>append_dict()\<close> opens an empty dict in its place.
  With consumers that never finish the loop does not return: the result is \<open>None\<close>.
\<close>

partial_function (option) consume_list ::
  "('d, 'l) bt_consumers \<Rightarrow> 'l \<Rightarrow> string \<Rightarrow> sub_info list
     \<Rightarrow> (exn + string \<times> sub_info list) option" where
  "consume_list P l out subs =
     (if is_finished P l then Some (Inr (out, subs))
      else case consume_dict_consumer P l of
             Inl e \<Rightarrow> Some (Inl e)
           | Inr (d, l') \<Rightarrow>
               (case handle_monitor_message_single P d bt_dict_producer_new subs of
                  Inl e \<Rightarrow> Some (Inl e)
                | Inr (item, subs') \<Rightarrow> consume_list P l' (butlast out @ item @ ''e'') subs'))"

text \<open>The body of the \<^verbatim>\<open>try\<close> block (lines 127 to 137): the result string and \<open>subs\<close>.\<close>

definition parse_request ::
  "('d, 'l) bt_consumers \<Rightarrow> string \<Rightarrow> (exn + string \<times> sub_info list) option" where
  "parse_request P m =
     (if hd m = CHR ''d'' then
        (case dict_consumer P m of
           Inl e \<Rightarrow> Some (Inl e)
         | Inr d \<Rightarrow> Some (handle_monitor_message_single P d bt_dict_producer_new []))
      else
        (case list_consumer P m of
           Inl e \<Rightarrow> Some (Inl e)
         | Inr l \<Rightarrow> consume_list P l ''le'' []))"

text \<open>
  The whole handler.  \<open>bad_args\<close> is the integer of \<^verbatim>\<open>MonitorResponse::BAD_ARGS\<close>, whose
  declaration is not among the source files.  The result is the reply sent and the
  registry after the call; \<^verbatim>\<open>update_monitors(subs, message.conn)\<close> passes the connection of
  the request and no QUIC handle.
\<close>

definition handle_monitor_messages ::
  "('d, 'l) bt_consumers \<Rightarrow> int \<Rightarrow> int \<Rightarrow> (nat \<Rightarrow> time_point) \<Rightarrow> oxenmq_Message
     \<Rightarrow> monitoring \<Rightarrow> (string \<times> monitoring) option" where
  "handle_monitor_messages P bad_args ttl clock message reg =
     (if length (oxenmq_Message.data message) \<noteq> 1
         \<or> length (oxenmq_Message.data message ! 0) < 2
         \<or> \<not> (hd (oxenmq_Message.data message ! 0) = CHR ''d''
              \<or> hd (oxenmq_Message.data message ! 0) = CHR ''l'')
         \<or> last (oxenmq_Message.data message ! 0) \<noteq> CHR ''e''
      then Some (bt_serialize
                   [(''errcode'', bt_int bad_args),
                    (''error'', bt_str (''Invalid arguments: monitor.messages takes a single ''
                                        @ ''bencoded dict or list parameter''))], reg)
      else
        (case parse_request P (oxenmq_Message.data message ! 0) of
           None \<Rightarrow> None
         | Some (Inl e) \<Rightarrow>
             Some (bt_serialize
                     [(''errcode'', bt_int bad_args),
                      (''error'', bt_str (''Invalid arguments: Failed to parse ''
                                          @ ''monitor.messages data value''))], reg)
         | Some (Inr (result, subs)) \<Rightarrow>
             Some (result,
                   if subs \<noteq> [] then update_monitors ttl clock subs (Some (conn message)) None reg
                   else reg)))"

subsection \<open>\<^verbatim>\<open>write_metadata\<close> and \<^verbatim>\<open>OMQ::send_notifies\<close> (lines 151 to 212)\<close>

text \<open>
  Modelled from the spec: \<^verbatim>\<open>to_int\<close>, \<^verbatim>\<open>to_epoch_ms\<close> and \<^verbatim>\<open>user_pubkey::prefixed_raw\<close> are
  declared in headers that are not among the source files.  The notification carries the
  "namespace (signed integer)", the "creation time and expiry (epoch milliseconds)" and the
  "account key bytes"; the fields of \<open>message\<close> hold these values.
\<close>

definition to_int :: "namespace_id \<Rightarrow> int" where
  "to_int ns = ns"

definition to_epoch_ms :: "int \<Rightarrow> int" where
  "to_epoch_ms t = t"

definition prefixed_raw :: "string \<Rightarrow> string" where
  "prefixed_raw k = k"

definition write_metadata :: "bt_dict_producer \<Rightarrow> string \<Rightarrow> message \<Rightarrow> bt_dict_producer" where
  "write_metadata d pk msg =
     (let d1 = append_string d ''@'' pk;
          d2 = append_string d1 ''h'' (hash msg);
          d3 = append_integer d2 ''n'' (to_int (msg_namespace msg));
          d4 = append_integer d3 ''t'' (to_epoch_ms (timestamp msg));
          d5 = append_integer d4 ''z'' (to_epoch_ms (message.expiry msg))
      in d5)"

text \<open>
  \<^verbatim>\<open>std::binary_search\<close>, as the standard library implements it: \<^verbatim>\<open>lower_bound\<close> halves
  the range \<open>[first, first + len)\<close> and the search succeeds when the bound is not the
  end and the element there is not above the value.  The iterator \<open>first\<close> is the
  list from its position to the end; \<open>binary_search\<close> starts it with the length of the
  list, so \<open>middle\<close> always points at an element.
\<close>

function lower_bound :: "'a::linorder list \<Rightarrow> nat \<Rightarrow> 'a \<Rightarrow> 'a list" where
  "lower_bound first len v =
     (if len = 0 then first
      else let half = len div 2; middle = drop half first
           in if hd middle < v then lower_bound (tl middle) (len - half - 1) v
              else lower_bound first half v)"
  by pat_completeness auto
termination
  by (relation "measure (\<lambda>(first, len, v). len)") auto

declare lower_bound.simps [simp del]

definition binary_search :: "'a::linorder list \<Rightarrow> 'a \<Rightarrow> bool" where
  "binary_search xs v =
     (case lower_bound xs (length xs) v of [] \<Rightarrow> False | x # rest \<Rightarrow> \<not> v < x)"

text \<open>
  Dereferencing an empty \<^verbatim>\<open>std::optional\<close> is undefined behaviour; the model stops there
  with this fault.
\<close>

datatype fault = Empty_optional_dereferenced

text \<open>
  The loop of lines 166 to 172 over the entries of \<open>pk\<close>, with the two vectors it
  fills.  Line 171 dereferences \<open>push_conn\<close> without a test.
\<close>

fun lookup_targets ::
  "time_point \<Rightarrow> string \<Rightarrow> namespace_id \<Rightarrow> monitoring \<Rightarrow> connection_id list
     \<Rightarrow> connection_id list \<Rightarrow> fault + connection_id list \<times> connection_id list" where
  "lookup_targets now pk ns [] relay_to relay_to_with_data = Inr (relay_to, relay_to_with_data)"
| "lookup_targets now pk ns ((k, mon_data) # rest) relay_to relay_to_with_data =
     (if k = pk \<and> expiry mon_data \<ge> now \<and> binary_search (namespaces mon_data) ns then
        (case push_conn mon_data of
           None \<Rightarrow> Inl Empty_optional_dereferenced
         | Some c \<Rightarrow>
             if want_data mon_data
             then lookup_targets now pk ns rest relay_to (relay_to_with_data @ [c])
             else lookup_targets now pk ns rest (relay_to @ [c]) relay_to_with_data)
      else lookup_targets now pk ns rest relay_to relay_to_with_data)"

text \<open>
  \<^verbatim>\<open>send_notifies\<close>: \<open>now\<close> is the reading of the steady clock of line 162.  The result
  is the list of the calls \<^verbatim>\<open>omq_.send(conn, "notify.message", d.view())\<close> in the order
  they are made, each as (connection, method, payload).
\<close>

definition send_notifies ::
  "time_point \<Rightarrow> message \<Rightarrow> monitoring \<Rightarrow> fault + (connection_id \<times> string \<times> string) list" where
  "send_notifies now msg reg =
     (let pk = prefixed_raw (pubkey msg) in
      case lookup_targets now pk (msg_namespace msg) reg [] [] of
        Inl f \<Rightarrow> Inl f
      | Inr (relay_to, relay_to_with_data) \<Rightarrow>
          if relay_to = [] \<and> relay_to_with_data = [] then Inr []
          else
            let d = write_metadata bt_dict_producer_new pk msg;
                sent = map (\<lambda>c. (c, ''notify.message'', view d)) relay_to
            in if relay_to_with_data \<noteq> [] then
                 let d' = append_string d ''~'' (data msg)
                 in Inr (sent @ map (\<lambda>c. (c, ''notify.message'', view d')) relay_to_with_data)
               else Inr sent)"

subsection \<open>Notions used to state the properties\<close>

text \<open>
  Entry \<open>i\<close> of the registry is the one that a request for the key \<open>pk\<close> over the
  handles \<open>omq\<close> and \<open>qc\<close> renews: it is the first entry of that key that passes the
  test of line 79.
\<close>

definition renewed_by ::
  "connection_id option \<Rightarrow> quic_connection option \<Rightarrow> string \<Rightarrow> monitoring \<Rightarrow> nat \<Rightarrow> bool" where
  "renewed_by omq qc pk reg i \<longleftrightarrow>
     fst (reg ! i) = pk \<and> same_transport omq qc (snd (reg ! i))
     \<and> (\<forall>j<i. \<not> (fst (reg ! j) = pk \<and> same_transport omq qc (snd (reg ! j))))"

text \<open>
  The entries that the lookup of \<^verbatim>\<open>send_notifies\<close> should select: those of the key that
  have not expired and cover the namespace.
\<close>

definition selected :: "time_point \<Rightarrow> string \<Rightarrow> namespace_id \<Rightarrow> string \<times> monitor_data \<Rightarrow> bool" where
  "selected now pk ns e \<longleftrightarrow> fst e = pk \<and> now \<le> expiry (snd e) \<and> ns \<in> set (namespaces (snd e))"

text \<open>
  The run of the loop of lines 134 and 135 from the list consumer \<open>l\<close> and the
  vector \<open>subs\<close>: the first \<open>n\<close> items are consumed and handled without an
  exception, and at the next item the list consumer or the handler of one item throws
  \<open>e\<close>.
\<close>

fun throws_at_item ::
  "('d, 'l) bt_consumers \<Rightarrow> nat \<Rightarrow> 'l \<Rightarrow> sub_info list \<Rightarrow> exn \<Rightarrow> bool" where
  "throws_at_item P 0 l subs e \<longleftrightarrow>
     \<not> is_finished P l \<and>
     (case consume_dict_consumer P l of
        Inl e' \<Rightarrow> e' = e
      | Inr (d, l') \<Rightarrow> handle_monitor_message_single P d bt_dict_producer_new subs = Inl e)"
| "throws_at_item P (Suc n) l subs e \<longleftrightarrow>
     \<not> is_finished P l \<and>
     (case consume_dict_consumer P l of
        Inl e' \<Rightarrow> False
      | Inr (d, l') \<Rightarrow>
          (case handle_monitor_message_single P d bt_dict_producer_new subs of
             Inl e' \<Rightarrow> False
           | Inr (item, subs') \<Rightarrow> throws_at_item P n l' subs' e))"

text \<open>
  A stand-in for the consumers, for worked examples: the list consumer hands out the
  given items in turn, and the handler of one item throws on the item \<^verbatim>\<open>dxe\<close> and
  otherwise reports success and adds one request for namespace 0.
\<close>

definition example_consumers :: "string list \<Rightarrow> (string, string list) bt_consumers" where
  "example_consumers items =
     \<lparr>dict_consumer = (\<lambda>m. Inr m),
      list_consumer = (\<lambda>m. Inr items),
      is_finished = (\<lambda>l. l = []),
      consume_dict_consumer = (\<lambda>l. case l of [] \<Rightarrow> Inl Exception | d # l' \<Rightarrow> Inr (d, l')),
      handle_monitor_message_single =
        (\<lambda>d out subs. if d = ''dxe'' then Inl Exception
                      else Inr (append_integer out ''success'' 1, subs @ [(d, d, [0], False)]))\<rparr>"

section \<open>Properties of the merge\<close>

lemma superset_scan_subset: "superset_scan a b \<Longrightarrow> set b \<subseteq> set a"
  by (induction a b rule: superset_scan.induct) (auto split: if_splits)

lemma superset_scan_refl: "superset_scan a a"
  by (induction a) auto

lemma set_merge_loop: "set (merge_loop a b c) = set c \<union> set a \<union> set b"
  by (induction a b c rule: merge_loop.induct) auto

text \<open>The element set of the result is the union, whatever the order of the inputs.\<close>

lemma set_merge_namespaces: "set (merge_namespaces a b) = set a \<union> set b"
  using superset_scan_subset[of a b] superset_scan_subset[of b a]
  by (auto simp: merge_namespaces_def set_merge_loop)

text \<open>
  The merge loop keeps its output strictly increasing: everything already written is
  below everything still to be read.
\<close>

lemma sorted_merge_loop:
  "sorted_wrt (<) (c @ a) \<Longrightarrow> sorted_wrt (<) (c @ b) \<Longrightarrow> sorted_wrt (<) (merge_loop a b c)"
proof (induction a b c rule: merge_loop.induct)
  case (4 x xs y ys c)
  have lt: "x < y \<Longrightarrow> \<forall>z\<in>set ys. x < z" and gt: "y < x \<Longrightarrow> \<forall>z\<in>set xs. y < z"
    using "4.prems" by (auto simp: sorted_wrt_append)
  show ?case
    using 4 lt gt by (auto simp: sorted_wrt_append not_less_iff_gr_or_eq)
qed (auto simp: sorted_wrt_append)

lemma strict_sorted_merge_namespaces:
  "sorted_wrt (<) a \<Longrightarrow> sorted_wrt (<) b \<Longrightarrow> sorted_wrt (<) (merge_namespaces a b)"
  using sorted_merge_loop[of "[]" a b] sorted_merge_loop[of "[]" b a]
  by (auto simp: merge_namespaces_def)

lemma merge_namespaces_same: "merge_namespaces a a = a"
  by (simp add: merge_namespaces_def superset_scan_refl)

text \<open>
  A strictly increasing list is determined by its elements, so two results with the
  same element set are the same list.
\<close>

lemma merge_namespaces_unique:
  assumes "sorted_wrt (<) a" and "sorted_wrt (<) b"
    and "sorted_wrt (<) r" and "set r = set a \<union> set b"
  shows "merge_namespaces a b = r"
  using strict_sorted_equal[OF assms(3) strict_sorted_merge_namespaces[OF assms(1,2)]] assms(4)
  by (simp add: set_merge_namespaces)

text \<open>
  C3: for sorted duplicate-free \<open>a\<close> and \<open>b\<close>, \<open>merge_namespaces a b\<close> is sorted and
  duplicate-free, its element set is the union of the two, and when the elements of one
  input contain those of the other the result is the containing input.
\<close>

theorem merge_namespaces_sorted_union:
  assumes "sorted a" and "distinct a" and "sorted b" and "distinct b"
  shows "sorted (merge_namespaces a b) \<and> distinct (merge_namespaces a b)
       \<and> set (merge_namespaces a b) = set a \<union> set b
       \<and> (set b \<subseteq> set a \<longrightarrow> merge_namespaces a b = a)
       \<and> (set a \<subseteq> set b \<longrightarrow> merge_namespaces a b = b)"
proof -
  have sa: "sorted_wrt (<) a" and sb: "sorted_wrt (<) b"
    using assms by (simp_all add: strict_sorted_iff)
  have "sorted_wrt (<) (merge_namespaces a b)"
    by (rule strict_sorted_merge_namespaces[OF sa sb])
  then have "sorted (merge_namespaces a b)" and "distinct (merge_namespaces a b)"
    by (simp_all add: strict_sorted_iff)
  moreover have "set b \<subseteq> set a \<longrightarrow> merge_namespaces a b = a"
    using merge_namespaces_unique[OF sa sb sa] by auto
  moreover have "set a \<subseteq> set b \<longrightarrow> merge_namespaces a b = b"
    using merge_namespaces_unique[OF sa sb sb] by auto
  ultimately show ?thesis
    by (simp add: set_merge_namespaces)
qed

theorem merge_namespaces_sorted_union_witness:
  "merge_namespaces [1, 3, 5] [2, 3 :: namespace_id] = [1, 2, 3, 5]
   \<and> sorted (merge_namespaces [1, 3, 5] [2, 3 :: namespace_id])
   \<and> distinct (merge_namespaces [1, 3, 5] [2, 3 :: namespace_id])
   \<and> set (merge_namespaces [1, 3, 5] [2, 3 :: namespace_id]) = {1, 2, 3, 5}
   \<and> merge_namespaces [3] [1, 3, 5 :: namespace_id] = [1, 3, 5]
   \<and> merge_namespaces [1, 3, 5] [3 :: namespace_id] = [1, 3, 5]"
proof -
  have "merge_namespaces [1, 3, 5] [2, 3 :: namespace_id] = [1, 2, 3, 5]"
    by (simp add: merge_namespaces_def)
  then show ?thesis
    using merge_namespaces_sorted_union[of "[1, 3, 5]" "[2, 3 :: namespace_id]"]
      merge_namespaces_sorted_union[of "[3]" "[1, 3, 5 :: namespace_id]"]
      merge_namespaces_sorted_union[of "[1, 3, 5]" "[3 :: namespace_id]"]
    by simp
qed

text \<open>
  C7: the merge is idempotent, \<open>merge_namespaces a a = a\<close>, and commutative on sorted
  duplicate-free inputs.
\<close>

theorem merge_namespaces_idem_comm:
  assumes "sorted a" and "distinct a" and "sorted b" and "distinct b"
  shows "merge_namespaces a a = a \<and> merge_namespaces a b = merge_namespaces b a"
proof -
  have sa: "sorted_wrt (<) a" and sb: "sorted_wrt (<) b"
    using assms by (simp_all add: strict_sorted_iff)
  have "merge_namespaces a b = merge_namespaces b a"
    by (rule merge_namespaces_unique[OF sa sb strict_sorted_merge_namespaces[OF sb sa]])
       (auto simp: set_merge_namespaces)
  then show ?thesis
    by (simp add: merge_namespaces_same)
qed

theorem merge_namespaces_idem_comm_witness:
  "merge_namespaces [1, 3, 5] [1, 3, 5 :: namespace_id] = [1, 3, 5]
   \<and> merge_namespaces [1, 3, 5] [2, 3 :: namespace_id] = merge_namespaces [2, 3] [1, 3, 5]
   \<and> merge_namespaces [2, 3] [1, 3, 5 :: namespace_id] = [1, 2, 3, 5]"
proof -
  have "merge_namespaces [2, 3] [1, 3, 5 :: namespace_id] = [1, 2, 3, 5]"
    by (simp add: merge_namespaces_def)
  then show ?thesis
    using merge_namespaces_idem_comm[of "[1, 3, 5]" "[2, 3 :: namespace_id]"]
    by simp
qed

section \<open>Properties of the registry update\<close>

text \<open>
  The inner loop finds nothing exactly when no entry of the key passes the test, and
  when it finds something it changes one entry: the first that passes.
\<close>

lemma renew_existing_None:
  "renew_existing ttl now omq qc pk ns wd reg = None \<longleftrightarrow>
     (\<forall>(k, m)\<in>set reg. \<not> (k = pk \<and> same_transport omq qc m))"
  by (induction reg) (auto split: if_splits)

lemma renew_existing_Some:
  "renew_existing ttl now omq qc pk ns wd reg = Some reg' \<Longrightarrow>
     length reg' = length reg \<and>
     (\<forall>i<length reg. reg' ! i =
        (if renewed_by omq qc pk reg i
         then (pk, renew ttl now omq qc ns wd (snd (reg ! i))) else reg ! i))"
proof (induction reg arbitrary: reg')
  case Nil
  then show ?case by simp
next
  case (Cons e rest)
  obtain k m where e: "e = (k, m)" by (cases e)
  show ?case
  proof (cases "k = pk \<and> same_transport omq qc m")
    case True
    then have r: "reg' = (k, renew ttl now omq qc ns wd m) # rest"
      using Cons.prems e by simp
    show ?thesis
      unfolding r using True e
      by (auto simp: renewed_by_def nth_Cons split: nat.splits)
  next
    case False
    then obtain rest' where r: "reg' = (k, m) # rest'"
      and s: "renew_existing ttl now omq qc pk ns wd rest = Some rest'"
      using Cons.prems e by auto
    have h: "renewed_by omq qc pk ((k, m) # rest) (Suc i) = renewed_by omq qc pk rest i" for i
      using False by (auto simp: renewed_by_def All_less_Suc2)
    have h0: "\<not> renewed_by omq qc pk ((k, m) # rest) 0"
      using False by (auto simp: renewed_by_def)
    show ?thesis
      unfolding r e using Cons.IH[OF s] h h0
      by (auto simp: nth_Cons split: nat.splits)
  qed
qed

text \<open>One request leaves every entry at its place and touches at most the renewed one.\<close>

lemma update_monitor_nth:
  assumes "i < length reg"
  shows "i < length (update_monitor ttl now omq qc (pk, h, ns, wd) reg)
     \<and> update_monitor ttl now omq qc (pk, h, ns, wd) reg ! i =
        (if renewed_by omq qc pk reg i
         then (pk, renew ttl now omq qc ns wd (snd (reg ! i))) else reg ! i)"
proof (cases "renew_existing ttl now omq qc pk ns wd reg")
  case None
  then have "\<not> renewed_by omq qc pk reg i"
    using assms nth_mem[OF assms] unfolding renew_existing_None renewed_by_def
    by (metis (mono_tags, lifting) case_prodD prod.collapse)
  then show ?thesis
    using None assms by (simp add: update_monitor_def nth_append)
next
  case (Some reg')
  then show ?thesis
    using renew_existing_Some[OF Some] assms by (simp add: update_monitor_def)
qed

text \<open>The fields of a renewed entry.\<close>

lemma push_conn_renew:
  "push_conn (renew ttl now omq qc ns wd m) = (case push_conn m of Some c \<Rightarrow> Some c | None \<Rightarrow> omq)"
  by (cases omq) (auto simp: renew_def reset_expiry_def Let_def split: option.splits)

lemma quic_renew:
  "quic (renew ttl now omq qc ns wd m) = (case quic m of Some q \<Rightarrow> Some q | None \<Rightarrow> qc)"
  by (cases qc) (auto simp: renew_def reset_expiry_def Let_def split: option.splits)

lemma namespaces_renew:
  "namespaces (renew ttl now omq qc ns wd m) = merge_namespaces (namespaces m) ns"
  by (simp add: renew_def reset_expiry_def Let_def)

lemma want_data_renew:
  "want_data (renew ttl now omq qc ns wd m) = (want_data m \<or> wd)"
  by (simp add: renew_def reset_expiry_def Let_def)

lemma expiry_renew:
  "expiry (renew ttl now omq qc ns wd m) = now + ttl"
  by (simp add: renew_def reset_expiry_def Let_def)

lemma same_transport_renew:
  "same_transport omq qc m \<Longrightarrow> same_transport omq qc (renew ttl now omq qc ns wd m)"
  by (auto simp: same_transport_def push_conn_renew quic_renew split: option.splits)


text \<open>
  A request changes neither the key of an entry nor whether it passes the test of
  line 79, so the entry that requests for a key renew stays the same through a batch.
\<close>

lemma update_monitor_key_transport:
  assumes "i < length reg"
  shows "fst (update_monitor ttl now omq qc sub reg ! i) = fst (reg ! i)
     \<and> same_transport omq qc (snd (update_monitor ttl now omq qc sub reg ! i))
         = same_transport omq qc (snd (reg ! i))"
proof -
  obtain pk h ns wd where sub: "sub = (pk, h, ns, wd)" by (cases sub)
  show ?thesis
    unfolding sub using update_monitor_nth[OF assms, of ttl now omq qc pk h ns wd]
    by (auto simp: renewed_by_def same_transport_renew)
qed

lemma renewed_by_update_monitor:
  assumes "i < length reg"
  shows "renewed_by omq qc pk (update_monitor ttl now omq qc sub reg) i = renewed_by omq qc pk reg i"
proof -
  have "j \<le> i \<Longrightarrow> fst (update_monitor ttl now omq qc sub reg ! j) = fst (reg ! j)
     \<and> same_transport omq qc (snd (update_monitor ttl now omq qc sub reg ! j))
         = same_transport omq qc (snd (reg ! j))" for j
    using update_monitor_key_transport[of j reg] assms by simp
  then show ?thesis
    unfolding renewed_by_def by (metis le_refl less_imp_le_nat)
qed

text \<open>The handles of an entry after a whole batch, by induction on the batch.\<close>

lemma update_monitors_from_nth:
  assumes "i < length reg"
  shows "i < length (update_monitors_from ttl clock n subs omq qc reg)
     \<and> fst (update_monitors_from ttl clock n subs omq qc reg ! i) = fst (reg ! i)
     \<and> push_conn (snd (update_monitors_from ttl clock n subs omq qc reg ! i)) =
         (if fst (reg ! i) \<in> fst ` set subs \<and> renewed_by omq qc (fst (reg ! i)) reg i
          then (case push_conn (snd (reg ! i)) of Some c \<Rightarrow> Some c | None \<Rightarrow> omq) else push_conn (snd (reg ! i)))
     \<and> quic (snd (update_monitors_from ttl clock n subs omq qc reg ! i)) =
         (if fst (reg ! i) \<in> fst ` set subs \<and> renewed_by omq qc (fst (reg ! i)) reg i
          then (case quic (snd (reg ! i)) of Some q \<Rightarrow> Some q | None \<Rightarrow> qc) else quic (snd (reg ! i)))"
  using assms
proof (induction subs arbitrary: reg n)
  case Nil
  then show ?case by simp
next
  case (Cons sub subs)
  obtain pk h ns wd where sub: "sub = (pk, h, ns, wd)" by (cases sub)
  let ?reg1 = "update_monitor ttl (clock n) omq qc sub reg"
  have step: "i < length ?reg1"
    "?reg1 ! i = (if renewed_by omq qc pk reg i
         then (pk, renew ttl (clock n) omq qc ns wd (snd (reg ! i))) else reg ! i)"
    using update_monitor_nth[OF Cons.prems, of ttl "clock n" omq qc pk h ns wd] sub by simp_all
  have key: "fst (?reg1 ! i) = fst (reg ! i)"
    using update_monitor_key_transport[OF Cons.prems] by simp
  have rb: "renewed_by omq qc k ?reg1 i = renewed_by omq qc k reg i" for k
    by (rule renewed_by_update_monitor[OF Cons.prems])
  have pk: "renewed_by omq qc pk reg i \<Longrightarrow> fst (reg ! i) = pk"
    by (simp add: renewed_by_def)
  show ?case
    using Cons.IH[OF step(1), of "Suc n"] step(2) key rb pk
    by (auto simp: sub push_conn_renew quic_renew split: option.splits)
qed


text \<open>A first request adds an entry at the end; a second one for it renews that entry.\<close>

lemma renew_existing_append:
  "renew_existing ttl now omq qc pk ns wd (xs @ ys) =
     (case renew_existing ttl now omq qc pk ns wd xs of
        Some xs' \<Rightarrow> Some (xs' @ ys)
      | None \<Rightarrow> map_option ((@) xs) (renew_existing ttl now omq qc pk ns wd ys))"
proof (induction xs)
  case Nil
  show ?case
    by (cases "renew_existing ttl now omq qc pk ns wd ys") simp_all
next
  case (Cons e xs)
  then show ?case
    by (cases e; cases "renew_existing ttl now omq qc pk ns wd ys") (auto split: option.splits)
qed

lemma update_monitor_fresh:
  assumes "\<forall>(k, m)\<in>set reg. k = pk \<longrightarrow> \<not> same_transport omq qc m"
  shows "update_monitor ttl now omq qc (pk, h, ns, wd) reg =
           reg @ [(pk, new_monitor_data ttl now ns wd omq qc)]"
proof -
  have "renew_existing ttl now omq qc pk ns wd reg = None"
    using assms unfolding renew_existing_None by auto
  then show ?thesis by (simp add: update_monitor_def)
qed

lemma update_monitor_last:
  assumes "\<forall>(k, m)\<in>set reg. k = pk \<longrightarrow> \<not> same_transport omq qc m"
    and "same_transport omq qc e"
  shows "update_monitor ttl now omq qc (pk, h, ns, wd) (reg @ [(pk, e)]) =
           reg @ [(pk, renew ttl now omq qc ns wd e)]"
proof -
  have "renew_existing ttl now omq qc pk ns wd reg = None"
    using assms(1) unfolding renew_existing_None by auto
  then show ?thesis
    using assms(2) by (simp add: update_monitor_def renew_existing_append)
qed

lemma same_transport_new:
  "omq \<noteq> None \<or> qc \<noteq> None \<Longrightarrow> same_transport omq qc (new_monitor_data ttl now ns wd omq qc)"
  by (auto simp: same_transport_def new_monitor_data_def)

lemma renew_new:
  "renew ttl now' omq qc ns' wd' (new_monitor_data ttl now ns wd omq qc) =
     \<lparr>expiry = now' + ttl, namespaces = merge_namespaces ns ns', push_conn = omq, quic = qc,
      want_data = wd \<or> wd'\<rparr>"
  by (cases omq; cases qc) (simp_all add: renew_def new_monitor_data_def reset_expiry_def)


text \<open>
  The invariant of the registry: when the requests name strictly increasing namespace
  lists, so does every entry after the batch.
\<close>

lemma renew_existing_sorted:
  assumes "renew_existing ttl now omq qc pk ns wd reg = Some reg'"
    and "\<forall>e\<in>set reg. sorted_wrt (<) (namespaces (snd e))" and "sorted_wrt (<) ns"
  shows "\<forall>e\<in>set reg'. sorted_wrt (<) (namespaces (snd e))"
  using assms
proof (induction reg arbitrary: reg')
  case Nil
  then show ?case by simp
next
  case (Cons e rest)
  obtain k m where e: "e = (k, m)" by (cases e)
  show ?case
  proof (cases "k = pk \<and> same_transport omq qc m")
    case True
    then show ?thesis
      using Cons.prems e by (auto simp: namespaces_renew strict_sorted_merge_namespaces)
  next
    case False
    then obtain rest' where "reg' = (k, m) # rest'"
      and "renew_existing ttl now omq qc pk ns wd rest = Some rest'"
      using Cons.prems e by auto
    then show ?thesis
      using Cons.IH[of rest'] Cons.prems e by auto
  qed
qed

lemma update_monitors_from_sorted:
  assumes "\<forall>e\<in>set reg. sorted_wrt (<) (namespaces (snd e))"
    and "\<forall>(pk, h, ns, wd)\<in>set subs. sorted_wrt (<) ns"
  shows "\<forall>e\<in>set (update_monitors_from ttl clock n subs omq qc reg).
           sorted_wrt (<) (namespaces (snd e))"
  using assms
proof (induction subs arbitrary: reg n)
  case Nil
  then show ?case by simp
next
  case (Cons sub subs)
  obtain pk h ns wd where sub: "sub = (pk, h, ns, wd)" by (cases sub)
  have ns: "sorted_wrt (<) ns" using Cons.prems(2) sub by simp
  have "\<forall>e\<in>set (update_monitor ttl (clock n) omq qc sub reg). sorted_wrt (<) (namespaces (snd e))"
  proof (cases "renew_existing ttl (clock n) omq qc pk ns wd reg")
    case None
    then show ?thesis
      using Cons.prems(1) ns by (simp add: update_monitor_def sub new_monitor_data_def)
  next
    case (Some reg')
    then show ?thesis
      using renew_existing_sorted[OF Some Cons.prems(1) ns] by (simp add: update_monitor_def sub)
  qed
  then show ?case
    using Cons.IH Cons.prems(2) by simp
qed

text \<open>
  C4: two requests for the same account key over the same transport handle, in one batch
  or in two successive calls, leave exactly one entry for that key and transport (none
  existed before).  Its namespaces are the merge of the two requests, whose element set
  is the union of the two (and the list itself when both requests name the same list),
  and its \<open>want_data\<close> is the disjunction of the two flags.
\<close>

theorem update_monitors_twice:
  assumes "omq \<noteq> None \<or> qc \<noteq> None"
    and "\<forall>(k, m)\<in>set reg. k = pk \<longrightarrow> \<not> same_transport omq qc m"
  shows "update_monitors ttl clock [(pk, h1, ns1, wd1), (pk, h2, ns2, wd2)] omq qc reg =
           reg @ [(pk, \<lparr>expiry = clock 1 + ttl, namespaces = merge_namespaces ns1 ns2,
                        push_conn = omq, quic = qc, want_data = wd1 \<or> wd2\<rparr>)]
       \<and> update_monitors ttl clock2 [(pk, h2, ns2, wd2)] omq qc
           (update_monitors ttl clock1 [(pk, h1, ns1, wd1)] omq qc reg) =
           reg @ [(pk, \<lparr>expiry = clock2 0 + ttl, namespaces = merge_namespaces ns1 ns2,
                        push_conn = omq, quic = qc, want_data = wd1 \<or> wd2\<rparr>)]
       \<and> length (filter (\<lambda>(k, m). k = pk \<and> same_transport omq qc m)
           (update_monitors ttl clock [(pk, h1, ns1, wd1), (pk, h2, ns2, wd2)] omq qc reg)) = 1
       \<and> length (filter (\<lambda>(k, m). k = pk \<and> same_transport omq qc m)
           (update_monitors ttl clock2 [(pk, h2, ns2, wd2)] omq qc
             (update_monitors ttl clock1 [(pk, h1, ns1, wd1)] omq qc reg))) = 1
       \<and> set (merge_namespaces ns1 ns2) = set ns1 \<union> set ns2
       \<and> (ns1 = ns2 \<longrightarrow> merge_namespaces ns1 ns2 = ns1)"
proof -
  have st: "same_transport omq qc (new_monitor_data ttl now ns1 wd1 omq qc)" for now
    by (rule same_transport_new[OF assms(1)])
  have none: "filter (\<lambda>(k, m). k = pk \<and> same_transport omq qc m) reg = []"
    using assms(2) by (auto simp: filter_empty_conv)
  have one: "same_transport omq qc \<lparr>expiry = t, namespaces = merge_namespaces ns1 ns2,
      push_conn = omq, quic = qc, want_data = wd1 \<or> wd2\<rparr>" for t
    using assms(1) by (auto simp: same_transport_def)
  have batch: "update_monitors ttl clock [(pk, h1, ns1, wd1), (pk, h2, ns2, wd2)] omq qc reg =
           reg @ [(pk, \<lparr>expiry = clock 1 + ttl, namespaces = merge_namespaces ns1 ns2,
                        push_conn = omq, quic = qc, want_data = wd1 \<or> wd2\<rparr>)]"
    by (simp add: update_monitors_def update_monitor_fresh[OF assms(2)]
        update_monitor_last[OF assms(2) st] renew_new)
  have succ: "update_monitors ttl clock2 [(pk, h2, ns2, wd2)] omq qc
           (update_monitors ttl clock1 [(pk, h1, ns1, wd1)] omq qc reg) =
           reg @ [(pk, \<lparr>expiry = clock2 0 + ttl, namespaces = merge_namespaces ns1 ns2,
                        push_conn = omq, quic = qc, want_data = wd1 \<or> wd2\<rparr>)]"
    by (simp add: update_monitors_def update_monitor_fresh[OF assms(2)]
        update_monitor_last[OF assms(2) st] renew_new)
  show ?thesis
    unfolding batch succ using none one
    by (simp add: set_merge_namespaces merge_namespaces_same)
qed

theorem update_monitors_twice_witness:
  "update_monitors 10 (\<lambda>i. int i) [(''K'', ''4b'', [1, 3], False), (''K'', ''4b'', [1, 3], True)]
     (Some 4) None
     [(''K'', \<lparr>expiry = 7, namespaces = [2], push_conn = Some 9, quic = None, want_data = False\<rparr>)]
   = [(''K'', \<lparr>expiry = 7, namespaces = [2], push_conn = Some 9, quic = None, want_data = False\<rparr>),
      (''K'', \<lparr>expiry = 11, namespaces = [1, 3], push_conn = Some 4, quic = None,
               want_data = True\<rparr>)]"
  using update_monitors_twice[where omq = "Some 4" and qc = None and pk = "''K''" and ttl = 10
      and clock = "\<lambda>i. int i" and ?h1.0 = "''4b''" and ?h2.0 = "''4b''" and ?ns1.0 = "[1, 3]"
      and ?ns2.0 = "[1, 3]" and ?wd1.0 = False and ?wd2.0 = True
      and reg = "[(''K'', \<lparr>expiry = 7, namespaces = [2], push_conn = Some 9, quic = None,
                            want_data = False\<rparr>)]"]
  by (simp add: same_transport_def)

text \<open>
  C8: after a batch, every entry that was in the registry is still at its place under
  its key.  If the batch holds a request for its key and it is the entry such a request
  renews, each handle it had is kept and each handle it lacked is the one the caller
  supplied; otherwise both handles are as before.  This holds whatever else the batch
  contains.
\<close>

theorem update_monitors_handles:
  assumes "i < length reg"
  shows "i < length (update_monitors ttl clock subs omq qc reg)
     \<and> fst (update_monitors ttl clock subs omq qc reg ! i) = fst (reg ! i)
     \<and> push_conn (snd (update_monitors ttl clock subs omq qc reg ! i)) =
         (if fst (reg ! i) \<in> fst ` set subs \<and> renewed_by omq qc (fst (reg ! i)) reg i
          then (case push_conn (snd (reg ! i)) of Some c \<Rightarrow> Some c | None \<Rightarrow> omq)
          else push_conn (snd (reg ! i)))
     \<and> quic (snd (update_monitors ttl clock subs omq qc reg ! i)) =
         (if fst (reg ! i) \<in> fst ` set subs \<and> renewed_by omq qc (fst (reg ! i)) reg i
          then (case quic (snd (reg ! i)) of Some q \<Rightarrow> Some q | None \<Rightarrow> qc)
          else quic (snd (reg ! i)))"
  unfolding update_monitors_def by (rule update_monitors_from_nth[OF assms])

theorem update_monitors_handles_witness:
  "push_conn (snd (update_monitors 10 (\<lambda>i. int i)
       [(''K'', ''4b'', [1], True), (''J'', ''4a'', [2], False), (''K'', ''4b'', [5], False)]
       (Some 2) (Some 7)
       [(''K'', \<lparr>expiry = 7, namespaces = [2], push_conn = Some 1, quic = Some 7,
                 want_data = False\<rparr>),
        (''J'', \<lparr>expiry = 7, namespaces = [2], push_conn = Some 2, quic = None,
                 want_data = False\<rparr>),
        (''L'', \<lparr>expiry = 7, namespaces = [2], push_conn = None, quic = Some 7,
                 want_data = False\<rparr>)] ! 0)) = Some 1
   \<and> quic (snd (update_monitors 10 (\<lambda>i. int i)
       [(''K'', ''4b'', [1], True), (''J'', ''4a'', [2], False), (''K'', ''4b'', [5], False)]
       (Some 2) (Some 7)
       [(''K'', \<lparr>expiry = 7, namespaces = [2], push_conn = Some 1, quic = Some 7,
                 want_data = False\<rparr>),
        (''J'', \<lparr>expiry = 7, namespaces = [2], push_conn = Some 2, quic = None,
                 want_data = False\<rparr>),
        (''L'', \<lparr>expiry = 7, namespaces = [2], push_conn = None, quic = Some 7,
                 want_data = False\<rparr>)] ! 1)) = Some 7"
  using update_monitors_handles[where i = 0 and ttl = 10 and clock = "\<lambda>i. int i"
      and subs = "[(''K'', ''4b'', [1], True), (''J'', ''4a'', [2], False), (''K'', ''4b'', [5], False)]"
      and omq = "Some 2" and qc = "Some 7"
      and reg = "[(''K'', \<lparr>expiry = 7, namespaces = [2], push_conn = Some 1, quic = Some 7,
                 want_data = False\<rparr>),
        (''J'', \<lparr>expiry = 7, namespaces = [2], push_conn = Some 2, quic = None,
                 want_data = False\<rparr>),
        (''L'', \<lparr>expiry = 7, namespaces = [2], push_conn = None, quic = Some 7,
                 want_data = False\<rparr>)]"]
    update_monitors_handles[where i = 1 and ttl = 10 and clock = "\<lambda>i. int i"
      and subs = "[(''K'', ''4b'', [1], True), (''J'', ''4a'', [2], False), (''K'', ''4b'', [5], False)]"
      and omq = "Some 2" and qc = "Some 7"
      and reg = "[(''K'', \<lparr>expiry = 7, namespaces = [2], push_conn = Some 1, quic = Some 7,
                 want_data = False\<rparr>),
        (''J'', \<lparr>expiry = 7, namespaces = [2], push_conn = Some 2, quic = None,
                 want_data = False\<rparr>),
        (''L'', \<lparr>expiry = 7, namespaces = [2], push_conn = None, quic = Some 7,
                 want_data = False\<rparr>)]"]
  by (simp add: renewed_by_def same_transport_def)

text \<open>
  C9: two calls for the same account key, the second over handles that are not those
  stored by the first, add two entries for that key (no entry of the key belonged to
  either transport before).  Each entry has the namespaces, the flag and the handles of
  its own call.
\<close>

theorem update_monitors_two_transports:
  assumes "\<forall>(k, m)\<in>set reg. k = pk \<longrightarrow>
             \<not> same_transport omq1 qc1 m \<and> \<not> same_transport omq2 qc2 m"
    and "omq2 = None \<or> omq1 \<noteq> omq2"
    and "qc2 = None \<or> qc1 \<noteq> qc2"
  shows "update_monitors ttl clock2 [(pk, h2, ns2, wd2)] omq2 qc2
           (update_monitors ttl clock1 [(pk, h1, ns1, wd1)] omq1 qc1 reg) =
           reg @ [(pk, \<lparr>expiry = clock1 0 + ttl, namespaces = ns1,
                        push_conn = omq1, quic = qc1, want_data = wd1\<rparr>),
                  (pk, \<lparr>expiry = clock2 0 + ttl, namespaces = ns2,
                        push_conn = omq2, quic = qc2, want_data = wd2\<rparr>)]"
proof -
  have f1: "\<forall>(k, m)\<in>set reg. k = pk \<longrightarrow> \<not> same_transport omq1 qc1 m"
    using assms(1) by auto
  have "\<not> same_transport omq2 qc2 (new_monitor_data ttl (clock1 0) ns1 wd1 omq1 qc1)"
    using assms(2,3) by (auto simp: same_transport_def new_monitor_data_def)
  then have f2: "\<forall>(k, m)\<in>set (reg @ [(pk, new_monitor_data ttl (clock1 0) ns1 wd1 omq1 qc1)]).
      k = pk \<longrightarrow> \<not> same_transport omq2 qc2 m"
    using assms(1) by auto
  have s1: "update_monitors ttl clock1 [(pk, h1, ns1, wd1)] omq1 qc1 reg =
      reg @ [(pk, new_monitor_data ttl (clock1 0) ns1 wd1 omq1 qc1)]"
    by (simp add: update_monitors_def update_monitor_fresh[OF f1])
  have s2: "update_monitors ttl clock2 [(pk, h2, ns2, wd2)] omq2 qc2
      (reg @ [(pk, new_monitor_data ttl (clock1 0) ns1 wd1 omq1 qc1)]) =
      (reg @ [(pk, new_monitor_data ttl (clock1 0) ns1 wd1 omq1 qc1)])
        @ [(pk, new_monitor_data ttl (clock2 0) ns2 wd2 omq2 qc2)]"
    by (simp add: update_monitors_def update_monitor_fresh[OF f2])
  show ?thesis
    unfolding s1 s2 by (simp add: new_monitor_data_def)
qed

theorem update_monitors_two_transports_witness:
  "update_monitors 10 (\<lambda>i. 5) [(''K'', ''4b'', [2, 4], True)] None (Some 7)
     (update_monitors 10 (\<lambda>i. 3) [(''K'', ''4b'', [1, 3], False)] (Some 4) None
        [(''K'', \<lparr>expiry = 7, namespaces = [2], push_conn = Some 9, quic = None,
                  want_data = False\<rparr>)])
   = [(''K'', \<lparr>expiry = 7, namespaces = [2], push_conn = Some 9, quic = None,
               want_data = False\<rparr>),
      (''K'', \<lparr>expiry = 13, namespaces = [1, 3], push_conn = Some 4, quic = None,
               want_data = False\<rparr>),
      (''K'', \<lparr>expiry = 15, namespaces = [2, 4], push_conn = None, quic = Some 7,
               want_data = True\<rparr>)]"
  using update_monitors_two_transports[where pk = "''K''" and ?omq1.0 = "Some 4"
      and ?qc1.0 = None and ?omq2.0 = None and ?qc2.0 = "Some 7" and ttl = 10
      and ?clock1.0 = "\<lambda>i. 3" and ?clock2.0 = "\<lambda>i. 5" and ?h1.0 = "''4b''" and ?h2.0 = "''4b''"
      and ?ns1.0 = "[1, 3]" and ?ns2.0 = "[2, 4]" and ?wd1.0 = False and ?wd2.0 = True
      and reg = "[(''K'', \<lparr>expiry = 7, namespaces = [2], push_conn = Some 9, quic = None,
                            want_data = False\<rparr>)]"]
  by (simp add: same_transport_def)

section \<open>Properties of the lookup of \<^verbatim>\<open>send_notifies\<close>\<close>

text \<open>
  On a sorted list \<open>lower_bound\<close> returns the position that splits the range into the
  elements below the value and the others, so the search is membership.
\<close>

lemma lower_bound_spec:
  assumes "sorted xs" and "len \<le> length xs"
  shows "\<exists>k\<le>len. lower_bound xs len v = drop k xs
           \<and> (\<forall>i<k. xs ! i < v) \<and> (\<forall>i. k \<le> i \<and> i < len \<longrightarrow> \<not> xs ! i < v)"
  using assms
proof (induction xs len v rule: lower_bound.induct)
  case (1 first len v)
  show ?case
  proof (cases "len = 0")
    case True
    then show ?thesis by (auto simp: lower_bound.simps[of first 0 v])
  next
    case False
    define half where "half = len div 2"
    have hl: "half < len" using False by (simp add: half_def)
    then have hlen: "half < length first" using "1.prems" by simp
    have hdm: "hd (drop half first) = first ! half"
      using hlen by (simp add: hd_drop_conv_nth)
    show ?thesis
    proof (cases "first ! half < v")
      case True
      have s: "sorted (tl (drop half first))"
        using "1.prems"(1) by (simp add: sorted_wrt_drop sorted_tl)
      have l: "len - half - 1 \<le> length (tl (drop half first))"
        using "1.prems"(2) by simp
      have tl_eq: "tl (drop half first) = drop (Suc half) first"
        by (simp add: drop_Suc tl_drop)
      from "1.IH"(1)[OF False half_def refl _ s l] True hdm
      obtain k where k: "k \<le> len - half - 1"
        "lower_bound (tl (drop half first)) (len - half - 1) v = drop k (tl (drop half first))"
        "\<forall>i<k. tl (drop half first) ! i < v"
        "\<forall>i. k \<le> i \<and> i < len - half - 1 \<longrightarrow> \<not> tl (drop half first) ! i < v"
        by auto
      have lb: "lower_bound first len v = drop (Suc half + k) first"
        using False True hdm k(2) 
        by (simp add: lower_bound.simps[of first len v] half_def[symmetric] Let_def tl_eq add.commute)
      have low: "\<forall>i<Suc half + k. first ! i < v"
      proof (intro allI impI)
        fix i assume i: "i < Suc half + k"
        show "first ! i < v"
        proof (cases "i \<le> half")
          case True
          then have "first ! i \<le> first ! half"
            using "1.prems"(1) hlen by (simp add: sorted_nth_mono)
          then show ?thesis using \<open>first ! half < v\<close> by simp
        next
          case False
          then have "i - Suc half < k" using i by simp
          then have "tl (drop half first) ! (i - Suc half) < v" using k(3) by simp
          moreover have "Suc half + (i - Suc half) = i" using False by simp
          moreover have "Suc half + (i - Suc half) < length first" 
            using i k(1) "1.prems"(2) hl False by simp
          ultimately show ?thesis
            unfolding tl_eq by (simp add: nth_drop del: drop_Suc)
        qed
      qed
      have high: "\<forall>i. Suc half + k \<le> i \<and> i < len \<longrightarrow> \<not> first ! i < v"
      proof (intro allI impI)
        fix i assume i: "Suc half + k \<le> i \<and> i < len"
        then have "k \<le> i - Suc half \<and> i - Suc half < len - half - 1" by auto
        then have "\<not> tl (drop half first) ! (i - Suc half) < v" using k(4) by simp
        moreover have "Suc half + (i - Suc half) = i" using i by simp
        ultimately show "\<not> first ! i < v"
          unfolding tl_eq using i "1.prems"(2) by (simp add: nth_drop del: drop_Suc)
      qed
      have "Suc half + k \<le> len" using k(1) hl by simp
      then show ?thesis using lb low high by blast
    next
      case nlt: False
      have l: "half \<le> length first" using hlen by simp
      from "1.IH"(2)[OF False half_def refl _ "1.prems"(1) l] nlt hdm
      obtain k where k: "k \<le> half" "lower_bound first half v = drop k first"
        "\<forall>i<k. first ! i < v" "\<forall>i. k \<le> i \<and> i < half \<longrightarrow> \<not> first ! i < v"
        by auto
      have lb: "lower_bound first len v = drop k first"
        using False nlt hdm k(2)
        by (simp add: lower_bound.simps[of first len v] half_def[symmetric] Let_def)
      have high: "\<forall>i. k \<le> i \<and> i < len \<longrightarrow> \<not> first ! i < v"
      proof (intro allI impI)
        fix i assume i: "k \<le> i \<and> i < len"
        show "\<not> first ! i < v"
        proof (cases "i < half")
          case True
          then show ?thesis using k(4) i by simp
        next
          case False
          then have "first ! half \<le> first ! i"
            using "1.prems" i by (simp add: sorted_nth_mono)
          then show ?thesis using nlt by simp
        qed
      qed
      have "k \<le> len" using k(1) hl by simp
      then show ?thesis using lb k(3) high by blast
    qed
  qed
qed

lemma binary_search_iff:
  assumes "sorted xs"
  shows "binary_search xs v \<longleftrightarrow> v \<in> set xs"
proof -
  obtain k where k: "k \<le> length xs" "lower_bound xs (length xs) v = drop k xs"
    "\<forall>i<k. xs ! i < v" "\<forall>i. k \<le> i \<and> i < length xs \<longrightarrow> \<not> xs ! i < v"
    using lower_bound_spec[OF assms le_refl, of v] by auto
  show ?thesis
  proof (cases "k = length xs")
    case True
    then have "v \<notin> set xs" using k(3) by (auto simp: in_set_conv_nth)
    then show ?thesis using True k(2) by (simp add: binary_search_def)
  next
    case False
    then have kl: "k < length xs" using k(1) by simp
    then have d: "drop k xs = xs ! k # drop (Suc k) xs"
      by (simp add: Cons_nth_drop_Suc)
    have bs: "binary_search xs v \<longleftrightarrow> \<not> v < xs ! k"
      using k(2) d by (simp add: binary_search_def)
    have nlt: "\<not> xs ! k < v" using k(4) kl by simp
    show ?thesis
    proof
      assume "binary_search xs v"
      then have "xs ! k = v" using bs nlt by simp
      then show "v \<in> set xs" using kl by auto
    next
      assume "v \<in> set xs"
      then obtain i where i: "i < length xs" "xs ! i = v" by (auto simp: in_set_conv_nth)
      have "\<not> i < k" using k(3) i by auto
      then have "xs ! k \<le> xs ! i" using assms i(1) by (simp add: sorted_nth_mono)
      then show "binary_search xs v" using bs i(2) by simp
    qed
  qed
qed



text \<open>The loop of the lookup, for any contents of the two vectors it appends to.\<close>

lemma lookup_targets_acc:
  assumes "\<forall>e\<in>set reg. fst e = pk \<longrightarrow> sorted (namespaces (snd e))"
    and "\<forall>e\<in>set reg. selected now pk ns e \<longrightarrow> push_conn (snd e) \<noteq> None"
  shows "lookup_targets now pk ns reg r rd =
     Inr (r @ map (\<lambda>e. the (push_conn (snd e)))
                (filter (\<lambda>e. selected now pk ns e \<and> \<not> want_data (snd e)) reg),
          rd @ map (\<lambda>e. the (push_conn (snd e)))
                (filter (\<lambda>e. selected now pk ns e \<and> want_data (snd e)) reg))"
  using assms
proof (induction reg arbitrary: r rd)
  case Nil
  then show ?case by simp
next
  case (Cons e reg)
  obtain k m where e: "e = (k, m)" by (cases e)
  have bs: "k = pk \<Longrightarrow> binary_search (namespaces m) ns \<longleftrightarrow> ns \<in> set (namespaces m)"
    using Cons.prems(1) e by (simp add: binary_search_iff)
  have sel: "selected now pk ns (k, m) \<longleftrightarrow>
      k = pk \<and> now \<le> expiry m \<and> binary_search (namespaces m) ns"
    using bs by (auto simp: selected_def)
  have IH: "lookup_targets now pk ns reg r' rd' =
     Inr (r' @ map (\<lambda>e. the (push_conn (snd e)))
                (filter (\<lambda>e. selected now pk ns e \<and> \<not> want_data (snd e)) reg),
          rd' @ map (\<lambda>e. the (push_conn (snd e)))
                (filter (\<lambda>e. selected now pk ns e \<and> want_data (snd e)) reg))" for r' rd'
    using Cons.IH Cons.prems by simp
  show ?case
  proof (cases "selected now pk ns (k, m)")
    case True
    then obtain c where c: "push_conn m = Some c"
      using Cons.prems(2) e by auto
    show ?thesis
      using True c sel by (simp add: e IH)
  next
    case False
    then show ?thesis
      using sel by (auto simp: e IH)
  qed
qed

lemma lookup_targets_fault:
  assumes "sorted (namespaces m)" and "selected now pk ns (k, m)" and "push_conn m = None"
  shows "lookup_targets now pk ns ((k, m) # rest) r rd = Inl Empty_optional_dereferenced"
  using assms by (simp add: selected_def binary_search_iff)


text \<open>
  C5: on a registry whose entries of the key have sorted namespaces and whose selected
  entries have a push connection, the lookup of \<open>send_notifies\<close> returns the
  connections of exactly the entries of the key that have not expired
  (\<open>now \<le> expiry\<close>) and whose namespaces contain the namespace of the message; those
  without \<open>want_data\<close> go to the metadata-only list, those with it to the with-data list.
\<close>

theorem lookup_targets_selects:
  assumes "\<forall>e\<in>set reg. fst e = pk \<longrightarrow> sorted (namespaces (snd e))"
    and "\<forall>e\<in>set reg. selected now pk ns e \<longrightarrow> push_conn (snd e) \<noteq> None"
  shows "lookup_targets now pk ns reg [] [] =
     Inr (map (\<lambda>e. the (push_conn (snd e)))
            (filter (\<lambda>e. selected now pk ns e \<and> \<not> want_data (snd e)) reg),
          map (\<lambda>e. the (push_conn (snd e)))
            (filter (\<lambda>e. selected now pk ns e \<and> want_data (snd e)) reg))"
  using lookup_targets_acc[OF assms, of "[]" "[]"] by simp

theorem lookup_targets_selects_witness:
  "lookup_targets 100 ''K'' 3
     [(''K'', \<lparr>expiry = 100, namespaces = [1, 3, 5], push_conn = Some 4, quic = None,
               want_data = False\<rparr>),
      (''K'', \<lparr>expiry = 99, namespaces = [3], push_conn = Some 5, quic = None,
               want_data = True\<rparr>),
      (''K'', \<lparr>expiry = 200, namespaces = [1, 3, 5], push_conn = Some 6, quic = None,
               want_data = True\<rparr>),
      (''J'', \<lparr>expiry = 200, namespaces = [3], push_conn = Some 7, quic = None,
               want_data = True\<rparr>)] [] [] = Inr ([4], [6])
   \<and> lookup_targets 100 ''K'' 2
     [(''K'', \<lparr>expiry = 100, namespaces = [1, 3, 5], push_conn = Some 4, quic = None,
               want_data = False\<rparr>),
      (''K'', \<lparr>expiry = 99, namespaces = [3], push_conn = Some 5, quic = None,
               want_data = True\<rparr>),
      (''K'', \<lparr>expiry = 200, namespaces = [1, 3, 5], push_conn = Some 6, quic = None,
               want_data = True\<rparr>),
      (''J'', \<lparr>expiry = 200, namespaces = [3], push_conn = Some 7, quic = None,
               want_data = True\<rparr>)] [] [] = Inr ([], [])"
  using lookup_targets_selects[where now = 100 and pk = "''K''" and ns = 3 and reg =
      "[(''K'', \<lparr>expiry = 100, namespaces = [1, 3, 5], push_conn = Some 4, quic = None,
               want_data = False\<rparr>),
      (''K'', \<lparr>expiry = 99, namespaces = [3], push_conn = Some 5, quic = None,
               want_data = True\<rparr>),
      (''K'', \<lparr>expiry = 200, namespaces = [1, 3, 5], push_conn = Some 6, quic = None,
               want_data = True\<rparr>),
      (''J'', \<lparr>expiry = 200, namespaces = [3], push_conn = Some 7, quic = None,
               want_data = True\<rparr>)]"]
    lookup_targets_selects[where now = 100 and pk = "''K''" and ns = 2 and reg =
      "[(''K'', \<lparr>expiry = 100, namespaces = [1, 3, 5], push_conn = Some 4, quic = None,
               want_data = False\<rparr>),
      (''K'', \<lparr>expiry = 99, namespaces = [3], push_conn = Some 5, quic = None,
               want_data = True\<rparr>),
      (''K'', \<lparr>expiry = 200, namespaces = [1, 3, 5], push_conn = Some 6, quic = None,
               want_data = True\<rparr>),
      (''J'', \<lparr>expiry = 200, namespaces = [3], push_conn = Some 7, quic = None,
               want_data = True\<rparr>)]"]
  by (simp add: selected_def)

text \<open>
  The lookup of a registry in two parts: the second part goes on from the vectors the
  first part has filled, and what a part adds does not depend on what the vectors held.
\<close>

lemma lookup_targets_shift:
  "lookup_targets now pk ns reg [] [] = Inr (r1, rd1) \<Longrightarrow>
   lookup_targets now pk ns reg r rd = Inr (r @ r1, rd @ rd1)"
proof -
  have "lookup_targets now pk ns reg (r @ a) (rd @ b) =
      (case lookup_targets now pk ns reg a b of Inl f \<Rightarrow> Inl f
       | Inr (x, y) \<Rightarrow> Inr (r @ x, rd @ y))" for a b
    by (induction reg arbitrary: a b) (auto split: option.splits)
  from this[of "[]" "[]"] show "lookup_targets now pk ns reg [] [] = Inr (r1, rd1) \<Longrightarrow>
   lookup_targets now pk ns reg r rd = Inr (r @ r1, rd @ rd1)" by simp
qed

lemma lookup_targets_append:
  "lookup_targets now pk ns (xs @ ys) r rd =
     (case lookup_targets now pk ns xs r rd of
        Inl f \<Rightarrow> Inl f
      | Inr (r', rd') \<Rightarrow> lookup_targets now pk ns ys r' rd')"
  by (induction xs arbitrary: r rd) (auto split: option.splits)

text \<open>
  C10: take any registry and any entry of the key in it that covers the namespace, with
  the entries before it and after it.  The lookup leaves the entry out when its expiry is
  strictly before the time of the lookup, and otherwise puts its connection between what
  the entries before it and the entries after it contribute; in particular an entry whose
  expiry equals the time of the lookup is live.
\<close>

theorem lookup_targets_expiry_boundary:
  assumes "sorted (namespaces m)" and "ns \<in> set (namespaces m)" and "push_conn m = Some c"
    and "lookup_targets now pk ns before [] [] = Inr (r1, rd1)"
    and "lookup_targets now pk ns after [] [] = Inr (r2, rd2)"
  shows "lookup_targets now pk ns (before @ (pk, m) # after) [] [] =
           Inr (if expiry m < now then (r1 @ r2, rd1 @ rd2)
                else if want_data m then (r1 @ r2, rd1 @ [c] @ rd2)
                else (r1 @ [c] @ r2, rd1 @ rd2))
       \<and> (expiry m = now \<longrightarrow>
            lookup_targets now pk ns (before @ (pk, m) # after) [] [] =
              Inr (if want_data m then (r1 @ r2, rd1 @ [c] @ rd2) else (r1 @ [c] @ r2, rd1 @ rd2)))"
  using assms(1,2,3) lookup_targets_shift[OF assms(5)]
  by (auto simp: lookup_targets_append assms(4) binary_search_iff)

theorem lookup_targets_expiry_boundary_witness:
  "lookup_targets 100 ''K'' 3
     [(''K'', \<lparr>expiry = 99, namespaces = [3], push_conn = Some 5, quic = None,
               want_data = False\<rparr>),
      (''K'', \<lparr>expiry = 100, namespaces = [1, 3, 5], push_conn = Some 4, quic = None,
               want_data = False\<rparr>),
      (''K'', \<lparr>expiry = 200, namespaces = [3], push_conn = Some 6, quic = None,
               want_data = True\<rparr>)] [] [] = Inr ([4], [6])
   \<and> lookup_targets 101 ''K'' 3
     [(''K'', \<lparr>expiry = 99, namespaces = [3], push_conn = Some 5, quic = None,
               want_data = False\<rparr>),
      (''K'', \<lparr>expiry = 100, namespaces = [1, 3, 5], push_conn = Some 4, quic = None,
               want_data = False\<rparr>),
      (''K'', \<lparr>expiry = 200, namespaces = [3], push_conn = Some 6, quic = None,
               want_data = True\<rparr>)] [] [] = Inr ([], [6])"
  using lookup_targets_expiry_boundary[where now = 100 and pk = "''K''" and ns = 3 and c = 4
      and m = "\<lparr>expiry = 100, namespaces = [1, 3, 5], push_conn = Some 4, quic = None,
               want_data = False\<rparr>"
      and before = "[(''K'', \<lparr>expiry = 99, namespaces = [3], push_conn = Some 5, quic = None,
               want_data = False\<rparr>)]"
      and after = "[(''K'', \<lparr>expiry = 200, namespaces = [3], push_conn = Some 6, quic = None,
               want_data = True\<rparr>)]"
      and ?r1.0 = "[]" and ?rd1.0 = "[]" and ?r2.0 = "[]" and ?rd2.0 = "[6]"]
    lookup_targets_expiry_boundary[where now = 101 and pk = "''K''" and ns = 3 and c = 4
      and m = "\<lparr>expiry = 100, namespaces = [1, 3, 5], push_conn = Some 4, quic = None,
               want_data = False\<rparr>"
      and before = "[(''K'', \<lparr>expiry = 99, namespaces = [3], push_conn = Some 5, quic = None,
               want_data = False\<rparr>)]"
      and after = "[(''K'', \<lparr>expiry = 200, namespaces = [3], push_conn = Some 6, quic = None,
               want_data = True\<rparr>)]"
      and ?r1.0 = "[]" and ?rd1.0 = "[]" and ?r2.0 = "[]" and ?rd2.0 = "[6]"]
  by (simp add: binary_search_def lower_bound.simps)

text \<open>
  C1 fails on the code: an entry made by \<open>update_monitors\<close> for a call that supplies
  only a QUIC handle has no push connection, and when a message selects it
  \<open>send_notifies\<close> dereferences the empty optional instead of leaving the entry out.
\<close>

theorem send_notifies_absent_push_conn:
  "update_monitors 10 (\<lambda>i. 95) [(''K'', ''4b'', [3], False)] None (Some 9) [] =
     [(''K'', \<lparr>expiry = 105, namespaces = [3], push_conn = None, quic = Some 9,
               want_data = False\<rparr>)]
   \<and> send_notifies 100
       \<lparr>pubkey = ''K'', hash = ''abc'', msg_namespace = 3, timestamp = 1658784776010,
        message.expiry = 1658784779999, data = ''payload''\<rparr>
       [(''K'', \<lparr>expiry = 105, namespaces = [3], push_conn = None, quic = Some 9,
                 want_data = False\<rparr>)]
     = Inl Empty_optional_dereferenced"
  by (simp add: update_monitors_def update_monitor_def new_monitor_data_def send_notifies_def
      prefixed_raw_def binary_search_def lower_bound.simps)


section \<open>The bytes of a notification\<close>

text \<open>The buffer after \<^verbatim>\<open>write_metadata\<close> on a fresh producer.\<close>

lemma write_metadata_bytes:
  "write_metadata bt_dict_producer_new pk msg =
     ''d1:@'' @ bt_string pk @ ''1:h'' @ bt_string (hash msg)
       @ ''1:n'' @ bt_integer (to_int (msg_namespace msg))
       @ ''1:t'' @ bt_integer (to_epoch_ms (timestamp msg))
       @ ''1:z'' @ bt_integer (to_epoch_ms (message.expiry msg)) @ ''e''"
  by (simp add: write_metadata_def bt_dict_producer_new_def append_string_def
      append_integer_def butlast_append bt_string_def[of "[c]" for c] decimal.simps digit_char_def)

text \<open>
  C6, as stated, fails at the last byte of the metadata-only payload: that payload is a
  closed dict and ends with \<open>e\<close>, and where it has this \<open>e\<close> the with-data payload goes
  on with the key \<open>~\<close>.
\<close>

theorem send_notifies_prefix_counterexample:
  "send_notifies 100
     \<lparr>pubkey = ''K'', hash = ''abc'', msg_namespace = 3, timestamp = 1658784776010,
        message.expiry = 1658784779999, data = ''payload''\<rparr>
     [(''K'', \<lparr>expiry = 100, namespaces = [3], push_conn = Some 4, quic = None,
               want_data = False\<rparr>),
      (''K'', \<lparr>expiry = 200, namespaces = [3], push_conn = Some 6, quic = None,
               want_data = True\<rparr>)]
   = Inr [(4, ''notify.message'', ''d1:@1:K1:h3:abc1:ni3e1:ti1658784776010e1:zi1658784779999ee''),
          (6, ''notify.message'',
           ''d1:@1:K1:h3:abc1:ni3e1:ti1658784776010e1:zi1658784779999e1:~7:payloade'')]
   \<and> take (length ''d1:@1:K1:h3:abc1:ni3e1:ti1658784776010e1:zi1658784779999ee'')
        ''d1:@1:K1:h3:abc1:ni3e1:ti1658784776010e1:zi1658784779999e1:~7:payloade''
      \<noteq> ''d1:@1:K1:h3:abc1:ni3e1:ti1658784776010e1:zi1658784779999ee''"
  by (simp add: send_notifies_def prefixed_raw_def binary_search_def lower_bound.simps
      write_metadata_bytes to_int_def to_epoch_ms_def view_def append_string_def
      bt_string_def bt_integer_def decimal.simps digit_char_def)

text \<open>
  C6, amended: when the lookup returns at least one target, every metadata-only target
  is sent the dict with the keys \<open>@\<close>, \<open>h\<close>, \<open>n\<close>, \<open>t\<close>, \<open>z\<close> in this order, and every
  with-data target is sent the same bytes up to the end of the \<open>z\<close> value (all of the
  metadata-only payload but its closing \<open>e\<close>), then the key \<open>~\<close> with the payload and
  the closing \<open>e\<close>.
\<close>

theorem send_notifies_payloads:
  assumes "lookup_targets now (prefixed_raw (pubkey msg)) (msg_namespace msg) reg [] [] =
             Inr (relay_to, relay_to_with_data)"
    and "relay_to \<noteq> [] \<or> relay_to_with_data \<noteq> []"
    and "metadata = ''d'' @ ''1:@'' @ bt_string (prefixed_raw (pubkey msg))
                        @ ''1:h'' @ bt_string (hash msg)
                        @ ''1:n'' @ bt_integer (to_int (msg_namespace msg))
                        @ ''1:t'' @ bt_integer (to_epoch_ms (timestamp msg))
                        @ ''1:z'' @ bt_integer (to_epoch_ms (message.expiry msg))"
  shows "send_notifies now msg reg =
     Inr (map (\<lambda>c. (c, ''notify.message'', metadata @ ''e'')) relay_to
          @ map (\<lambda>c. (c, ''notify.message'', metadata @ ''1:~'' @ bt_string (data msg) @ ''e''))
              relay_to_with_data)"
proof -
  have tilde: "bt_string ''~'' = ''1:~''"
    by (simp add: bt_string_def decimal.simps digit_char_def)
  have w: "write_metadata bt_dict_producer_new (prefixed_raw (pubkey msg)) msg = metadata @ ''e''"
    unfolding assms(3) write_metadata_bytes by simp
  show ?thesis
    using assms(1,2)
    by (auto simp: send_notifies_def Let_def w view_def append_string_def butlast_append tilde)
qed

theorem send_notifies_payloads_witness:
  "send_notifies 100
     \<lparr>pubkey = ''K'', hash = ''abc'', msg_namespace = - 3, timestamp = 1658784776010,
        message.expiry = 1658784779999, data = ''payload''\<rparr>
     [(''K'', \<lparr>expiry = 100, namespaces = [- 3, 5], push_conn = Some 4, quic = None,
               want_data = False\<rparr>),
      (''K'', \<lparr>expiry = 200, namespaces = [- 3], push_conn = Some 6, quic = None,
               want_data = True\<rparr>)]
   = Inr [(4, ''notify.message'', ''d1:@1:K1:h3:abc1:ni-3e1:ti1658784776010e1:zi1658784779999ee''),
          (6, ''notify.message'',
           ''d1:@1:K1:h3:abc1:ni-3e1:ti1658784776010e1:zi1658784779999e1:~7:payloade'')]"
  using send_notifies_payloads[where now = 100 and relay_to = "[4]" and relay_to_with_data = "[6]"
      and metadata = "''d1:@1:K1:h3:abc1:ni-3e1:ti1658784776010e1:zi1658784779999e''"
      and msg = "\<lparr>pubkey = ''K'', hash = ''abc'', msg_namespace = - 3, timestamp = 1658784776010,
        message.expiry = 1658784779999, data = ''payload''\<rparr>"
      and reg = "[(''K'', \<lparr>expiry = 100, namespaces = [- 3, 5], push_conn = Some 4, quic = None,
               want_data = False\<rparr>),
      (''K'', \<lparr>expiry = 200, namespaces = [- 3], push_conn = Some 6, quic = None,
               want_data = True\<rparr>)]"]
  by (simp add: prefixed_raw_def to_int_def to_epoch_ms_def binary_search_def lower_bound.simps
      bt_string_def bt_integer_def decimal.simps digit_char_def)

section \<open>Malformed requests\<close>

text \<open>
  The loop over a list request stops with the exception at the first item on which the
  list consumer or the handler of one item throws, and otherwise moves on to the next
  item: a failure inside any element of the list is a failure of the whole parse.
\<close>

lemma consume_list_throws:
  assumes "\<not> is_finished P l"
    and "consume_dict_consumer P l = Inl e
       \<or> (\<exists>d l'. consume_dict_consumer P l = Inr (d, l')
             \<and> handle_monitor_message_single P d bt_dict_producer_new subs = Inl e)"
  shows "consume_list P l out subs = Some (Inl e)"
  using assms by (subst consume_list.simps) auto

lemma consume_list_next:
  assumes "\<not> is_finished P l"
    and "consume_dict_consumer P l = Inr (d, l')"
    and "handle_monitor_message_single P d bt_dict_producer_new subs = Inr (item, subs')"
  shows "consume_list P l out subs = consume_list P l' (butlast out @ item @ ''e'') subs'"
  using assms by (subst consume_list.simps) simp

text \<open>
  A throw at any item, after any number of items that went well, is the result of the
  whole loop; and the loop has no other way to end in an exception.
\<close>

lemma consume_list_throws_at_item:
  "throws_at_item P n l subs e \<Longrightarrow> consume_list P l out subs = Some (Inl e)"
proof (induction n arbitrary: l out subs)
  case 0
  then show ?case
    by (subst consume_list.simps) (auto split: sum.splits)
next
  case (Suc n)
  then show ?case
    by (subst consume_list.simps) (auto split: sum.splits)
qed

lemma consume_list_Inl_throws_at_item:
  assumes "consume_list P l out subs = Some y"
  shows "\<forall>e. y = Inl e \<longrightarrow> (\<exists>n. throws_at_item P n l subs e)"
proof -
  let ?Q = "\<lambda>(x :: ((('d, 'l) bt_consumers \<times> 'l) \<times> string) \<times> sub_info list) (y :: exn + string \<times> sub_info list).
      \<forall>e. y = Inl e \<longrightarrow> (\<exists>n. throws_at_item (fst (fst (fst x))) n (snd (fst (fst x))) (snd x) e)"
  have "?Q (((P, l), out), subs) y"
  proof (rule consume_list.raw_induct[where Pa = ?Q, OF _ assms])
    fix cl :: "('d, 'l) bt_consumers \<Rightarrow> 'l \<Rightarrow> string \<Rightarrow> sub_info list \<Rightarrow> (exn + string \<times> sub_info list) option"
    fix P l out subs y
    assume IH: "\<And>P l out subs y. cl P l out subs = Some y \<Longrightarrow> ?Q (((P, l), out), subs) y"
    assume step: "(if is_finished P l then Some (Inr (out, subs))
      else case consume_dict_consumer P l of Inl e \<Rightarrow> Some (Inl e)
           | Inr (d, l') \<Rightarrow>
               case handle_monitor_message_single P d bt_dict_producer_new subs of
               Inl e \<Rightarrow> Some (Inl e)
               | Inr (item, subs') \<Rightarrow> cl P l' (butlast out @ item @ ''e'') subs') = Some y"
    show "?Q (((P, l), out), subs) y"
    proof (intro allI impI)
      fix e assume y: "y = Inl e"
      have nf: "\<not> is_finished P l" using step y by (auto split: if_splits)
      show "\<exists>n. throws_at_item (fst (fst (fst (((P, l), out), subs)))) n
              (snd (fst (fst (((P, l), out), subs)))) (snd (((P, l), out), subs)) e"
      proof (cases "consume_dict_consumer P l")
        case (Inl e')
        then have "throws_at_item P 0 l subs e" using step y nf by simp
        then show ?thesis unfolding fst_conv snd_conv by (rule exI)
      next
        case (Inr p)
        obtain d l' where p: "p = (d, l')" by (cases p)
        show ?thesis
        proof (cases "handle_monitor_message_single P d bt_dict_producer_new subs")
          case (Inl e')
          then have "throws_at_item P 0 l subs e" using step y nf Inr p by simp
          then show ?thesis unfolding fst_conv snd_conv by (rule exI)
        next
          case r: (Inr q)
          obtain item subs' where q: "q = (item, subs')" by (cases q)
          have "cl P l' (butlast out @ item @ ''e'') subs' = Some y"
            using step nf Inr p r q by simp
          from IH[OF this] y obtain n where "throws_at_item P n l' subs' e" by auto
          then have "throws_at_item P (Suc n) l subs e"
            using nf Inr p r q by simp
          then show ?thesis unfolding fst_conv snd_conv by (rule exI)
        qed
      qed
    qed
  qed
  then show ?thesis by simp
qed

text \<open>
  The \<^verbatim>\<open>try\<close> block ends in an exception exactly when the consumer of the request cannot be
  made, or the handler throws on the single dict, or the loop over a list throws at one
  of its items.
\<close>

lemma parse_request_Inl_iff:
  "parse_request P m = Some (Inl e) \<longleftrightarrow>
     (if hd m = CHR ''d''
      then dict_consumer P m = Inl e
         \<or> (\<exists>d. dict_consumer P m = Inr d
               \<and> handle_monitor_message_single P d bt_dict_producer_new [] = Inl e)
      else list_consumer P m = Inl e
         \<or> (\<exists>l n. list_consumer P m = Inr l \<and> throws_at_item P n l [] e))"
proof (cases "hd m = CHR ''d''")
  case True
  then show ?thesis
    by (auto simp: parse_request_def split: sum.splits)
next
  case False
  show ?thesis
  proof (cases "list_consumer P m")
    case (Inl e')
    then show ?thesis using False by (auto simp: parse_request_def)
  next
    case (Inr l)
    have "consume_list P l ''le'' [] = Some (Inl e) \<longleftrightarrow> (\<exists>n. throws_at_item P n l [] e)"
      using consume_list_throws_at_item[of P _ l "[]" e "''le''"]
        consume_list_Inl_throws_at_item[of P l "''le''" "[]" "Inl e"]
      by blast
    then show ?thesis using False Inr by (simp add: parse_request_def)
  qed
qed

text \<open>
  C2: a request that is not exactly one data part, or whose part is shorter than two
  bytes, does not start with \<open>d\<close> or \<open>l\<close> or does not end with \<open>e\<close>, is answered by the
  first error dict.  A request of the right shape is answered by the second error dict
  whenever the \<^verbatim>\<open>try\<close> block throws, and it throws whenever the consumer of the request
  cannot be made, the handler throws on the single dict, or, in a list, the list consumer
  or the handler throws at any item after any number of items that went well: the items
  before it change nothing.  Both dicts carry the code \<open>BAD_ARGS\<close>, and in all cases the
  registry is returned as it was.
\<close>

theorem handle_monitor_messages_malformed:
  "(length parts \<noteq> 1
      \<or> (\<exists>m. parts = [m] \<and> (length m < 2 \<or> (hd m \<noteq> CHR ''d'' \<and> hd m \<noteq> CHR ''l'')
             \<or> last m \<noteq> CHR ''e''))
    \<longrightarrow> handle_monitor_messages P bad_args ttl clock
          \<lparr>oxenmq_Message.data = parts, conn = c\<rparr> reg =
        Some (bt_serialize
                [(''errcode'', bt_int bad_args),
                 (''error'', bt_str (''Invalid arguments: monitor.messages takes a single ''
                                     @ ''bencoded dict or list parameter''))], reg))
   \<and> (\<forall>m e. parts = [m] \<and> 2 \<le> length m \<and> (hd m = CHR ''d'' \<or> hd m = CHR ''l'')
             \<and> last m = CHR ''e'' \<and> parse_request P m = Some (Inl e)
    \<longrightarrow> handle_monitor_messages P bad_args ttl clock
          \<lparr>oxenmq_Message.data = parts, conn = c\<rparr> reg =
        Some (bt_serialize
                [(''errcode'', bt_int bad_args),
                 (''error'', bt_str (''Invalid arguments: Failed to parse ''
                                     @ ''monitor.messages data value''))], reg))
   \<and> (\<forall>m e. parts = [m] \<and> 2 \<le> length m \<and> last m = CHR ''e''
             \<and> (hd m = CHR ''d''
                    \<and> (dict_consumer P m = Inl e
                        \<or> (\<exists>d. dict_consumer P m = Inr d
                              \<and> handle_monitor_message_single P d bt_dict_producer_new [] = Inl e))
                  \<or> hd m = CHR ''l''
                    \<and> (list_consumer P m = Inl e
                        \<or> (\<exists>l n. list_consumer P m = Inr l \<and> throws_at_item P n l [] e)))
    \<longrightarrow> handle_monitor_messages P bad_args ttl clock
          \<lparr>oxenmq_Message.data = parts, conn = c\<rparr> reg =
        Some (bt_serialize
                [(''errcode'', bt_int bad_args),
                 (''error'', bt_str (''Invalid arguments: Failed to parse ''
                                     @ ''monitor.messages data value''))], reg))"
proof -
  have parse: "parse_request P m = Some (Inl e)"
    if "hd m = CHR ''d''
          \<and> (dict_consumer P m = Inl e
              \<or> (\<exists>d. dict_consumer P m = Inr d
                    \<and> handle_monitor_message_single P d bt_dict_producer_new [] = Inl e))
        \<or> hd m = CHR ''l''
          \<and> (list_consumer P m = Inl e
              \<or> (\<exists>l n. list_consumer P m = Inr l \<and> throws_at_item P n l [] e))" for m e
    using that unfolding parse_request_Inl_iff by auto
  have reply: "handle_monitor_messages P bad_args ttl clock
          \<lparr>oxenmq_Message.data = [m], conn = c\<rparr> reg =
        Some (bt_serialize
                [(''errcode'', bt_int bad_args),
                 (''error'', bt_str (''Invalid arguments: Failed to parse ''
                                     @ ''monitor.messages data value''))], reg)"
    if "2 \<le> length m" and "hd m = CHR ''d'' \<or> hd m = CHR ''l''" and "last m = CHR ''e''"
      and "parse_request P m = Some (Inl e)" for m e
    using that by (auto simp: handle_monitor_messages_def)
  have shape: "length parts \<noteq> 1
      \<or> (\<exists>m. parts = [m] \<and> (length m < 2 \<or> (hd m \<noteq> CHR ''d'' \<and> hd m \<noteq> CHR ''l'')
             \<or> last m \<noteq> CHR ''e''))
    \<longrightarrow> handle_monitor_messages P bad_args ttl clock
          \<lparr>oxenmq_Message.data = parts, conn = c\<rparr> reg =
        Some (bt_serialize
                [(''errcode'', bt_int bad_args),
                 (''error'', bt_str (''Invalid arguments: monitor.messages takes a single ''
                                     @ ''bencoded dict or list parameter''))], reg)"
    by (auto simp: handle_monitor_messages_def)
  show ?thesis
  proof (intro conjI allI impI)
    show "length parts \<noteq> 1
      \<or> (\<exists>m. parts = [m] \<and> (length m < 2 \<or> (hd m \<noteq> CHR ''d'' \<and> hd m \<noteq> CHR ''l'')
             \<or> last m \<noteq> CHR ''e''))
      \<Longrightarrow> handle_monitor_messages P bad_args ttl clock
          \<lparr>oxenmq_Message.data = parts, conn = c\<rparr> reg =
        Some (bt_serialize
                [(''errcode'', bt_int bad_args),
                 (''error'', bt_str (''Invalid arguments: monitor.messages takes a single ''
                                     @ ''bencoded dict or list parameter''))], reg)"
      using shape by blast
  next
    fix m e
    assume "parts = [m] \<and> 2 \<le> length m \<and> (hd m = CHR ''d'' \<or> hd m = CHR ''l'')
             \<and> last m = CHR ''e'' \<and> parse_request P m = Some (Inl e)"
    then show "handle_monitor_messages P bad_args ttl clock
          \<lparr>oxenmq_Message.data = parts, conn = c\<rparr> reg =
        Some (bt_serialize
                [(''errcode'', bt_int bad_args),
                 (''error'', bt_str (''Invalid arguments: Failed to parse ''
                                     @ ''monitor.messages data value''))], reg)"
      using reply[of m e] by blast
  next
    fix m e
    assume h: "parts = [m] \<and> 2 \<le> length m \<and> last m = CHR ''e''
             \<and> (hd m = CHR ''d''
                    \<and> (dict_consumer P m = Inl e
                        \<or> (\<exists>d. dict_consumer P m = Inr d
                              \<and> handle_monitor_message_single P d bt_dict_producer_new [] = Inl e))
                  \<or> hd m = CHR ''l''
                    \<and> (list_consumer P m = Inl e
                        \<or> (\<exists>l n. list_consumer P m = Inr l \<and> throws_at_item P n l [] e)))"
    then have "parse_request P m = Some (Inl e)" and "hd m = CHR ''d'' \<or> hd m = CHR ''l''"
      using parse[of m e] by blast+
    then show "handle_monitor_messages P bad_args ttl clock
          \<lparr>oxenmq_Message.data = parts, conn = c\<rparr> reg =
        Some (bt_serialize
                [(''errcode'', bt_int bad_args),
                 (''error'', bt_str (''Invalid arguments: Failed to parse ''
                                     @ ''monitor.messages data value''))], reg)"
      using reply[of m e] h by blast
  qed
qed

theorem handle_monitor_messages_malformed_witness:
  "handle_monitor_messages (example_consumers []) 1 10 (\<lambda>i. 0)
     \<lparr>oxenmq_Message.data = [''x''], conn = 4\<rparr>
     [(''K'', \<lparr>expiry = 7, namespaces = [2], push_conn = Some 9, quic = None, want_data = False\<rparr>)]
   = Some (bt_serialize
             [(''errcode'', bt_int 1),
              (''error'', bt_str (''Invalid arguments: monitor.messages takes a single ''
                                  @ ''bencoded dict or list parameter''))],
           [(''K'', \<lparr>expiry = 7, namespaces = [2], push_conn = Some 9, quic = None,
                     want_data = False\<rparr>)])
   \<and> handle_monitor_messages
       (example_consumers [''d1:ai1ee'', ''d1:ai2ee'', ''dxe'', ''d1:ai3ee'']) 1 10 (\<lambda>i. 0)
       \<lparr>oxenmq_Message.data = [''ld1:ai1eed1:ai2eedxed1:ai3eee''], conn = 4\<rparr>
       [(''K'', \<lparr>expiry = 7, namespaces = [2], push_conn = Some 9, quic = None, want_data = False\<rparr>)]
   = Some (bt_serialize
             [(''errcode'', bt_int 1),
              (''error'', bt_str (''Invalid arguments: Failed to parse ''
                                  @ ''monitor.messages data value''))],
           [(''K'', \<lparr>expiry = 7, namespaces = [2], push_conn = Some 9, quic = None,
                     want_data = False\<rparr>)])"
proof -
  have item: "throws_at_item (example_consumers [''d1:ai1ee'', ''d1:ai2ee'', ''dxe'', ''d1:ai3ee''])
      2 [''d1:ai1ee'', ''d1:ai2ee'', ''dxe'', ''d1:ai3ee''] [] Exception"
    by (simp add: example_consumers_def eval_nat_numeral)
  have l: "list_consumer (example_consumers [''d1:ai1ee'', ''d1:ai2ee'', ''dxe'', ''d1:ai3ee''])
      ''ld1:ai1eed1:ai2eedxed1:ai3eee'' = Inr [''d1:ai1ee'', ''d1:ai2ee'', ''dxe'', ''d1:ai3ee'']"
    by (simp add: example_consumers_def)
  have third: "\<exists>l n. list_consumer (example_consumers [''d1:ai1ee'', ''d1:ai2ee'', ''dxe'', ''d1:ai3ee''])
        ''ld1:ai1eed1:ai2eedxed1:ai3eee'' = Inr l
      \<and> throws_at_item (example_consumers [''d1:ai1ee'', ''d1:ai2ee'', ''dxe'', ''d1:ai3ee''])
           n l [] Exception"
    using item l by blast
  have first: "handle_monitor_messages (example_consumers []) 1 10 (\<lambda>i. 0)
     \<lparr>oxenmq_Message.data = [''x''], conn = 4\<rparr>
     [(''K'', \<lparr>expiry = 7, namespaces = [2], push_conn = Some 9, quic = None, want_data = False\<rparr>)]
   = Some (bt_serialize
             [(''errcode'', bt_int 1),
              (''error'', bt_str (''Invalid arguments: monitor.messages takes a single ''
                                  @ ''bencoded dict or list parameter''))],
           [(''K'', \<lparr>expiry = 7, namespaces = [2], push_conn = Some 9, quic = None,
                     want_data = False\<rparr>)])"
    using handle_monitor_messages_malformed[where parts = "[''x'']" and P = "example_consumers []"
        and bad_args = 1 and ttl = 10 and clock = "\<lambda>i. 0" and c = 4
        and reg = "[(''K'', \<lparr>expiry = 7, namespaces = [2], push_conn = Some 9, quic = None,
                             want_data = False\<rparr>)]"]
    by simp
  have second: "handle_monitor_messages
       (example_consumers [''d1:ai1ee'', ''d1:ai2ee'', ''dxe'', ''d1:ai3ee'']) 1 10 (\<lambda>i. 0)
       \<lparr>oxenmq_Message.data = [''ld1:ai1eed1:ai2eedxed1:ai3eee''], conn = 4\<rparr>
       [(''K'', \<lparr>expiry = 7, namespaces = [2], push_conn = Some 9, quic = None, want_data = False\<rparr>)]
   = Some (bt_serialize
             [(''errcode'', bt_int 1),
              (''error'', bt_str (''Invalid arguments: Failed to parse ''
                                  @ ''monitor.messages data value''))],
           [(''K'', \<lparr>expiry = 7, namespaces = [2], push_conn = Some 9, quic = None,
                     want_data = False\<rparr>)])"
    by (rule handle_monitor_messages_malformed[where parts = "[''ld1:ai1eed1:ai2eedxed1:ai3eee'']"
        and P = "example_consumers [''d1:ai1ee'', ''d1:ai2ee'', ''dxe'', ''d1:ai3ee'']",
        THEN conjunct2, THEN conjunct2, rule_format,
        of "''ld1:ai1eed1:ai2eedxed1:ai3eee''" Exception])
      (use third in simp)
  show ?thesis
    using first second by simp
qed

end
